theory Spec2Isabelle
  imports Complex_Main "HOL-Library.Word"
begin

section \<open>Time, durations and floating-point values\<close>

text \<open>
  A \<open>time.Time\<close> is modelled as the number of nanoseconds since the zero time
  (January 1, year 1, 00:00:00 UTC), an unbounded integer; the zero time is \<open>0\<close>.
  A \<open>time.Duration\<close> is Go's \<open>int64\<close> count of nanoseconds: a 64-bit word read
  as two's complement (\<open>sint\<close>), so that negation and multiplication wrap as in Go.
\<close>

type_synonym Time = int
type_synonym Duration = "64 word"

definition Time_Add :: "Time \<Rightarrow> Duration \<Rightarrow> Time" where
  "Time_Add t d = t + sint d"

definition Time_Before :: "Time \<Rightarrow> Time \<Rightarrow> bool" where
  "Time_Before t u = (t < u)"

definition Time_After :: "Time \<Rightarrow> Time \<Rightarrow> bool" where
  "Time_After t u = (t > u)"

definition Time_IsZero :: "Time \<Rightarrow> bool" where
  "Time_IsZero t = (t = 0)"

definition maxDuration :: int where
  "maxDuration = 2 ^ 63 - 1"

definition minDuration :: int where
  "minDuration = - (2 ^ 63)"

text \<open>\<open>t.Sub(u)\<close> saturates at the largest and smallest duration.\<close>

definition Time_Sub :: "Time \<Rightarrow> Time \<Rightarrow> Duration" where
  "Time_Sub t u =
     (if t - u > maxDuration then word_of_int maxDuration
      else if t - u < minDuration then word_of_int minDuration
      else word_of_int (t - u))"

definition Second :: Duration where
  "Second = 1000000000"

definition Minute :: Duration where
  "Minute = 60 * Second"

text \<open>Go's \<open>/\<close> on signed integers truncates towards zero.\<close>

definition Duration_quot :: "Duration \<Rightarrow> int \<Rightarrow> Duration" where
  "Duration_quot d k = word_of_int (sgn (sint d) * sgn k * (\<bar>sint d\<bar> div \<bar>k\<bar>))"

text \<open>
  A \<open>float64\<close> is a finite value (every finite double is a rational), an infinity or
  NaN. Only comparisons are computed on them; conversions that round (parsing a string,
  converting an integer) are parameters of the model.
\<close>

datatype float64 = Finite rat | PosInf | NegInf | NaN

fun f64_less :: "float64 \<Rightarrow> float64 \<Rightarrow> bool" where
  "f64_less NaN _ = False"
| "f64_less _ NaN = False"
| "f64_less (Finite a) (Finite b) = (a < b)"
| "f64_less (Finite a) PosInf = True"
| "f64_less (Finite a) NegInf = False"
| "f64_less PosInf _ = False"
| "f64_less NegInf NegInf = False"
| "f64_less NegInf _ = True"

definition f64_less_eq :: "float64 \<Rightarrow> float64 \<Rightarrow> bool" where
  "f64_less_eq a b = (f64_less a b \<or> (a \<noteq> NaN \<and> a = b))"

section \<open>Constants of the alerting package\<close>

definition OperatorIs :: string where "OperatorIs = ''is''"
definition OperatorIsNot :: string where "OperatorIsNot = ''is_not''"
definition OperatorContains :: string where "OperatorContains = ''contains''"
definition OperatorNotContains :: string where "OperatorNotContains = ''not_contains''"
definition OperatorGreaterThan :: string where "OperatorGreaterThan = ''greater_than''"
definition OperatorLessThan :: string where "OperatorLessThan = ''less_than''"
definition OperatorGreaterOrEqual :: string where "OperatorGreaterOrEqual = ''greater_or_equal''"
definition OperatorLessOrEqual :: string where "OperatorLessOrEqual = ''less_or_equal''"

definition TriggerTypeEvent :: string where "TriggerTypeEvent = ''event''"
definition TriggerTypeMetric :: string where "TriggerTypeMetric = ''metric''"

definition PropertyValue :: string where "PropertyValue = ''value''"

section \<open>Dynamic values and the Go standard library\<close>

text \<open>
  A property value has Go's type \<open>any\<close>. The model keeps the dynamic types that
  \<open>toFloat64\<close> tells apart: \<open>float64\<close>, \<open>float32\<close> (carried as the double it
  converts to exactly), the signed integer kinds (\<open>int\<close>, \<open>int8\<close> ... \<open>int64\<close>), the
  unsigned ones (\<open>uint\<close>, \<open>uint8\<close> ... \<open>uint64\<close>), \<open>string\<close> and \<open>bool\<close>; any other
  value (nil, a slice, a map, a struct) is \<open>VOther\<close>, carrying the text that the
  \<open>%v\<close> verb prints for it.
\<close>

datatype any =
    VFloat64 float64
  | VFloat32 float64
  | VInt int
  | VUint nat
  | VString string
  | VBool bool
  | VOther string

text \<open>
  Go's \<open>int\<close>, on a 64-bit platform: a 64-bit word read as two's complement.
\<close>

type_synonym go_int = "64 word"

record AlertAction =
  ID :: nat
  RuleID :: nat
  Target :: string
  TemplateTitle :: string
  TemplateMessage :: string
  SortOrder :: go_int

text \<open>
  Functions of Go's standard library whose results the model does not compute are fields
  of a record passed to every function that calls them:
  \<^item> \<open>ParseFloat s\<close> is \<open>strconv.ParseFloat(s, 64)\<close>, \<open>None\<close> when it returns an error;
  \<^item> \<open>IntToFloat\<close> is the conversion \<open>float64(v)\<close> of an integer;
  \<^item> \<open>FormatFloat64\<close> and \<open>FormatFloat32\<close> are what \<open>%v\<close> prints for a float;
  \<^item> \<open>FoldUnicode sr tr\<close> is the general case of \<open>strings.EqualFold\<close> on two
    different runes \<open>sr < tr\<close> of which \<open>tr\<close> is not ASCII: whether
    \<open>unicode.SimpleFold\<close>, applied repeatedly from \<open>sr\<close>, reaches \<open>tr\<close> (a lookup in
    the Unicode case tables);
  \<^item> \<open>LowerUnicode\<close> is \<open>strings.ToLower\<close> past its ASCII fast path (on strings with
    a non-ASCII byte);
  \<^item> \<open>MarshalProperties\<close> and \<open>MarshalActions\<close> are \<open>json.Marshal\<close> at the two
    types the engine marshals, \<open>None\<close> when it returns an error.
\<close>

record golib =
  ParseFloat :: "string \<Rightarrow> float64 option"
  IntToFloat :: "int \<Rightarrow> float64"
  FormatFloat64 :: "float64 \<Rightarrow> string"
  FormatFloat32 :: "float64 \<Rightarrow> string"
  FoldUnicode :: "nat \<Rightarrow> nat \<Rightarrow> bool"
  LowerUnicode :: "string \<Rightarrow> string"
  MarshalProperties :: "(string \<rightharpoonup> any) \<Rightarrow> string option"
  MarshalActions :: "AlertAction list \<Rightarrow> string option"

section \<open>Metric tracker (metric_tracker.go)\<close>

definition maxSamplesPerMetric :: nat where
  "maxSamplesPerMetric = 120"

definition maxSampleAge :: Duration where
  "maxSampleAge = 30 * Minute"

text \<open>
  The struct \<open>metricSample\<close>, with its fields \<open>value\<close> and \<open>timestamp\<close>.
\<close>

record metricSample =
  sample_value :: float64
  sample_timestamp :: Time

text \<open>
  The tracker's \<open>buffers\<close> field: a Go map from metric name to a slice of samples.
  Reading a missing key gives the nil slice, of length 0.
\<close>

type_synonym MetricTracker = "string \<rightharpoonup> metricSample list"

definition NewMetricTracker :: MetricTracker where
  "NewMetricTracker = Map.empty"

definition buffer_of :: "MetricTracker \<Rightarrow> string \<Rightarrow> metricSample list" where
  "buffer_of t metricName = (case t metricName of None \<Rightarrow> [] | Some samples \<Rightarrow> samples)"

text \<open>
  The eviction loop of \<open>Record\<close>:
  \<open>for start < len(samples) && samples[start].timestamp.Before(cutoff) { start++ }\<close>.
\<close>

function evict_start :: "metricSample list \<Rightarrow> Time \<Rightarrow> nat \<Rightarrow> nat" where
  "evict_start samples cutoff start =
     (if start < length samples \<and> Time_Before (sample_timestamp (samples ! start)) cutoff
      then evict_start samples cutoff (Suc start)
      else start)"
  by pat_completeness auto
termination
  by (relation "measure (\<lambda>(samples, cutoff, start). length samples - start)") auto

declare evict_start.simps [simp del]

definition Record :: "MetricTracker \<Rightarrow> string \<Rightarrow> float64 \<Rightarrow> Time \<Rightarrow> MetricTracker" where
  "Record t metricName v ts =
     (let samples = buffer_of t metricName @ [\<lparr>sample_value = v, sample_timestamp = ts\<rparr>];
          cutoff = Time_Add ts (- maxSampleAge);
          start = evict_start samples cutoff 0;
          samples = drop start samples;
          samples = (if length samples > maxSamplesPerMetric
                     then drop (length samples - maxSamplesPerMetric) samples
                     else samples)
      in t(metricName \<mapsto> samples))"

definition compareFloat :: "float64 \<Rightarrow> string \<Rightarrow> float64 \<Rightarrow> bool" where
  "compareFloat v operator threshold =
     (if operator = OperatorGreaterThan then f64_less threshold v
      else if operator = OperatorLessThan then f64_less v threshold
      else if operator = OperatorGreaterOrEqual then f64_less_eq threshold v
      else if operator = OperatorLessOrEqual then f64_less_eq v threshold
      else False)"

definition in_window :: "Time \<Rightarrow> Time \<Rightarrow> metricSample \<Rightarrow> bool" where
  "in_window windowStart now s =
     (\<not> Time_Before (sample_timestamp s) windowStart \<and> \<not> Time_After (sample_timestamp s) now)"

definition IsSustained ::
  "golib \<Rightarrow> MetricTracker \<Rightarrow> string \<Rightarrow> string \<Rightarrow> string \<Rightarrow> Duration \<Rightarrow> Time \<Rightarrow> bool" where
  "IsSustained L t metricName operator val duration now =
     (let samples = buffer_of t metricName in
      if length samples = 0 then False
      else case ParseFloat L val of
        None \<Rightarrow> False
      | Some threshold \<Rightarrow>
          (let windowStart = Time_Add now (- duration);
               inWindow = filter (in_window windowStart now) samples
           in if length inWindow = 0 then False
              else let grace = Duration_quot duration 5
                   in if Time_After (sample_timestamp (hd inWindow)) (Time_Add windowStart grace)
                      then False
                      else list_all (\<lambda>s. compareFloat (sample_value s) operator threshold) inWindow))"

section \<open>Condition evaluator\<close>

record AlertCondition =
  ID :: nat
  RuleID :: nat
  Property :: string
  Operator :: string
  Value :: string
  DurationSec :: go_int
  SortOrder :: go_int

text \<open>What \<open>fmt.Sprintf("%v", v)\<close> returns.\<close>

definition decimal_digit :: "nat \<Rightarrow> char" where
  "decimal_digit d = ''0123456789'' ! (d mod 10)"

fun FormatUint :: "nat \<Rightarrow> string" where
  "FormatUint n = (if n < 10 then [decimal_digit n] else FormatUint (n div 10) @ [decimal_digit n])"

declare FormatUint.simps [simp del]

definition FormatInt :: "int \<Rightarrow> string" where
  "FormatInt i = (if i < 0 then CHR ''-'' # FormatUint (nat (- i)) else FormatUint (nat i))"

definition Sprint :: "golib \<Rightarrow> any \<Rightarrow> string" where
  "Sprint L v =
     (case v of
        VFloat64 f \<Rightarrow> FormatFloat64 L f
      | VFloat32 f \<Rightarrow> FormatFloat32 L f
      | VInt i \<Rightarrow> FormatInt i
      | VUint n \<Rightarrow> FormatUint n
      | VString s \<Rightarrow> s
      | VBool b \<Rightarrow> (if b then ''true'' else ''false'')
      | VOther s \<Rightarrow> s)"

text \<open>
  \<open>utf8.DecodeRuneInString\<close>: the rune at the start of a string and its width in bytes.
  A rune is a code point, here a natural number. The table \<open>first\<close> gives for a leading
  byte the length of its sequence (low three bits) and the index in \<open>acceptRanges\<close> of
  the range allowed for the second byte (high four bits), or marks it as ASCII (\<open>0xF0\<close>)
  or invalid (\<open>0xF1\<close>). The masks and shifts of the source are written as remainders
  and products. An invalid or truncated sequence gives \<open>RuneError\<close> and width 1.
\<close>

type_synonym rune = nat

definition RuneError :: rune where
  "RuneError = 0xFFFD"

definition RuneSelf :: nat where
  "RuneSelf = 0x80"

definition first :: "nat \<Rightarrow> nat" where
  "first b =
     (if b < 0x80 then 0xF0
      else if b < 0xC2 then 0xF1
      else if b < 0xE0 then 0x02
      else if b = 0xE0 then 0x13
      else if b < 0xED then 0x03
      else if b = 0xED then 0x23
      else if b < 0xF0 then 0x03
      else if b = 0xF0 then 0x34
      else if b < 0xF4 then 0x04
      else if b = 0xF4 then 0x44
      else 0xF1)"

definition acceptRanges :: "nat \<Rightarrow> nat \<times> nat" where
  "acceptRanges i =
     (if i = 0 then (0x80, 0xBF)
      else if i = 1 then (0xA0, 0xBF)
      else if i = 2 then (0x80, 0x9F)
      else if i = 3 then (0x90, 0xBF)
      else if i = 4 then (0x80, 0x8F)
      else (0, 0))"

definition DecodeRuneInString :: "string \<Rightarrow> rune \<times> nat" where
  "DecodeRuneInString s =
     (let n = length s in
      if n < 1 then (RuneError, 0)
      else
        let s0 = (of_char (s ! 0) :: nat);
            x = first s0
        in if x \<ge> 0xF0 then (if x = 0xF1 then RuneError else s0, 1)
           else
             let sz = x mod 8;
                 accept = acceptRanges (x div 16)
             in if n < sz then (RuneError, 1)
                else
                  let s1 = (of_char (s ! 1) :: nat)
                  in if s1 < fst accept \<or> snd accept < s1 then (RuneError, 1)
                     else if sz \<le> 2 then ((s0 mod 32) * 64 + s1 mod 64, 2)
                     else
                       let s2 = (of_char (s ! 2) :: nat)
                       in if s2 < 0x80 \<or> 0xBF < s2 then (RuneError, 1)
                          else if sz \<le> 3
                            then ((s0 mod 16) * 4096 + (s1 mod 64) * 64 + s2 mod 64, 3)
                          else
                            let s3 = (of_char (s ! 3) :: nat)
                            in if s3 < 0x80 \<or> 0xBF < s3 then (RuneError, 1)
                               else ((s0 mod 8) * 262144 + (s1 mod 64) * 4096
                                       + (s2 mod 64) * 64 + s3 mod 64, 4))"

text \<open>
  \<open>strings.EqualFold\<close>. Its first loop goes byte by byte while both strings are ASCII,
  two bytes being equal under folding when they are the same or the upper and lower case
  of one letter. At the first position where either byte is not ASCII it continues,
  from that position, with its second loop (the label \<open>hasUnicode\<close>), which reads one
  rune of each string at a time; \<open>equalFoldRune\<close> is the test made on the two runes.
\<close>

definition is_ascii :: "char \<Rightarrow> bool" where
  "is_ascii c = ((of_char c :: nat) < 128)"

definition is_upper :: "char \<Rightarrow> bool" where
  "is_upper c = ((of_char (CHR ''A'') :: nat) \<le> of_char c \<and> (of_char c :: nat) \<le> of_char (CHR ''Z''))"

definition ascii_fold_eq :: "char \<Rightarrow> char \<Rightarrow> bool" where
  "ascii_fold_eq sr tr =
     (tr = sr \<or>
      (let lo = (if (of_char tr :: nat) < of_char sr then tr else sr);
           hi = (if (of_char tr :: nat) < of_char sr then sr else tr)
       in is_upper lo \<and> (of_char hi :: nat) = of_char lo + 32))"

definition equalFoldRune :: "golib \<Rightarrow> rune \<Rightarrow> rune \<Rightarrow> bool" where
  "equalFoldRune L sr tr =
     (if tr = sr then True
      else
        let lo = (if tr < sr then tr else sr);
            hi = (if tr < sr then sr else tr)
        in if hi < RuneSelf
           then of_char (CHR ''A'') \<le> lo \<and> lo \<le> of_char (CHR ''Z'') \<and> hi = lo + 32
           else FoldUnicode L lo hi)"

function hasUnicode :: "golib \<Rightarrow> string \<Rightarrow> string \<Rightarrow> bool" where
  "hasUnicode L s t =
     (if s = [] then t = []
      else if t = [] then False
      else if equalFoldRune L (fst (DecodeRuneInString s)) (fst (DecodeRuneInString t))
        then hasUnicode L (drop (snd (DecodeRuneInString s)) s)
               (drop (snd (DecodeRuneInString t)) t)
      else False)"
  by pat_completeness auto
termination
proof (relation "measure (\<lambda>(L, s, t). length s)")
  show "wf (measure (\<lambda>(L, s, t). length s))"
    by simp
next
  fix L :: golib and s t :: string
  assume "s \<noteq> []"
  then have "0 < length s" and "0 < snd (DecodeRuneInString s)"
    by (simp_all add: DecodeRuneInString_def Let_def)
  then show "((L, drop (snd (DecodeRuneInString s)) s, drop (snd (DecodeRuneInString t)) t),
      L, s, t) \<in> measure (\<lambda>(L, s, t). length s)"
    by simp
qed

declare hasUnicode.simps [simp del]

fun EqualFold :: "golib \<Rightarrow> string \<Rightarrow> string \<Rightarrow> bool" where
  "EqualFold L [] t = (t = [])"
| "EqualFold L (sr # s) [] = False"
| "EqualFold L (sr # s) (tr # t) =
     (if \<not> is_ascii sr \<or> \<not> is_ascii tr then hasUnicode L (sr # s) (tr # t)
      else if ascii_fold_eq sr tr then EqualFold L s t
      else False)"

definition ascii_lower :: "char \<Rightarrow> char" where
  "ascii_lower c = (if is_upper c then char_of ((of_char c :: nat) + 32) else c)"

definition ToLower :: "golib \<Rightarrow> string \<Rightarrow> string" where
  "ToLower L s =
     (if list_all is_ascii s
      then (if \<not> list_ex is_upper s then s else map ascii_lower s)
      else LowerUnicode L s)"

text \<open>\<open>strings.Contains(s, substr)\<close>: \<open>substr\<close> occurs in \<open>s\<close> as a run of bytes.\<close>

fun Contains :: "string \<Rightarrow> string \<Rightarrow> bool" where
  "Contains [] substr = (substr = [])"
| "Contains (c # s) substr = (take (length substr) (c # s) = substr \<or> Contains s substr)"

definition toFloat64 :: "golib \<Rightarrow> any \<Rightarrow> float64 option" where
  "toFloat64 L val =
     (case val of
        VFloat64 v \<Rightarrow> Some v
      | VFloat32 v \<Rightarrow> Some v
      | VInt v \<Rightarrow> Some (IntToFloat L v)
      | VUint v \<Rightarrow> Some (IntToFloat L (int v))
      | VString v \<Rightarrow> ParseFloat L v
      | VBool v \<Rightarrow> None
      | VOther v \<Rightarrow> None)"

definition evaluateNumeric :: "golib \<Rightarrow> string \<Rightarrow> any \<Rightarrow> string \<Rightarrow> bool" where
  "evaluateNumeric L operator propVal condVal =
     (case toFloat64 L propVal of
        None \<Rightarrow> False
      | Some propFloat \<Rightarrow>
          (case ParseFloat L condVal of
             None \<Rightarrow> False
           | Some condFloat \<Rightarrow>
               (if operator = OperatorGreaterThan then f64_less condFloat propFloat
                else if operator = OperatorLessThan then f64_less propFloat condFloat
                else if operator = OperatorGreaterOrEqual then f64_less_eq condFloat propFloat
                else if operator = OperatorLessOrEqual then f64_less_eq propFloat condFloat
                else False)))"

definition evaluateCondition :: "golib \<Rightarrow> AlertCondition \<Rightarrow> (string \<rightharpoonup> any) \<Rightarrow> bool" where
  "evaluateCondition L cond properties =
     (case properties (Property cond) of
        None \<Rightarrow> False
      | Some propVal \<Rightarrow>
          (let propStr = Sprint L propVal;
               condVal = Value cond
           in if Operator cond = OperatorIs then EqualFold L propStr condVal
              else if Operator cond = OperatorIsNot then \<not> EqualFold L propStr condVal
              else if Operator cond = OperatorContains
                then Contains (ToLower L propStr) (ToLower L condVal)
              else if Operator cond = OperatorNotContains
                then \<not> Contains (ToLower L propStr) (ToLower L condVal)
              else if Operator cond = OperatorGreaterThan \<or> Operator cond = OperatorLessThan
                      \<or> Operator cond = OperatorGreaterOrEqual \<or> Operator cond = OperatorLessOrEqual
                then evaluateNumeric L (Operator cond) propVal condVal
              else False))"

text \<open>
  \<open>EvaluateConditions\<close>: the loop returns false at the first condition that does not
  match, and true after the last one.
\<close>

fun EvaluateConditions :: "golib \<Rightarrow> AlertCondition list \<Rightarrow> (string \<rightharpoonup> any) \<Rightarrow> bool" where
  "EvaluateConditions L [] properties = True"
| "EvaluateConditions L (c # conditions) properties =
     (if \<not> evaluateCondition L c properties then False
      else EvaluateConditions L conditions properties)"

section \<open>Alert events and rules\<close>

record AlertEvent =
  ObjectType :: string
  EventName :: string
  MetricName :: string
  Properties :: "string \<rightharpoonup> any"
  Timestamp :: Time

text \<open>
  The fields of \<open>entities.AlertRule\<close> that the engine and the dispatcher read.
  \<open>ID\<close> is a \<open>uint\<close>, used only as a map key; \<open>CooldownSec\<close> is a Go \<open>int\<close>
  (64 bits on the platforms the model describes).
\<close>

record AlertRule =
  ID :: nat
  Name :: string
  Enabled :: bool
  ObjectType :: string
  TriggerType :: string
  EventName :: string
  MetricName :: string
  CooldownSec :: go_int
  Conditions :: "AlertCondition list"
  Actions :: "AlertAction list"

text \<open>
  The fields of \<open>entities.AlertHistory\<close> that \<open>fireRule\<close> sets; the others keep their
  zero values.
\<close>

record AlertHistory =
  RuleID :: nat
  FiredAt :: Time
  EventData :: string
  Actions :: string

section \<open>Engine\<close>

text \<open>
  What the engine does to its collaborators is recorded, in order, in a trace: a message
  passed to \<open>log.Error\<close>, a row passed to \<open>repo.SaveHistory\<close>, a call of the action
  function with the rule and the event.
\<close>

datatype effect =
    LogError string
  | SaveHistoryCall AlertHistory
  | ActionCall AlertRule AlertEvent

text \<open>
  The collaborators: \<open>SaveHistory h\<close> is the error \<open>repo.SaveHistory\<close> returns for the
  row \<open>h\<close> (\<open>None\<close> for nil), and \<open>actionFunc_nil\<close> tells whether the engine was
  built without an action function.
\<close>

record collaborators =
  SaveHistory :: "AlertHistory \<Rightarrow> string option"
  actionFunc_nil :: bool

record Engine =
  metricTracker :: MetricTracker
  cooldowns :: "nat \<rightharpoonup> Time"
  rules :: "AlertRule list"
  trace :: "effect list"

definition NewEngine :: Engine where
  "NewEngine = \<lparr>metricTracker = NewMetricTracker, cooldowns = Map.empty, rules = [], trace = []\<rparr>"

text \<open>
  \<open>RefreshRules\<close>, given what \<open>repo.GetEnabledRules\<close> returned: the error is passed
  on and the cache kept, or the cache is replaced.
\<close>

definition RefreshRules :: "string + AlertRule list \<Rightarrow> Engine \<Rightarrow> string option \<times> Engine" where
  "RefreshRules fetched e =
     (case fetched of
        Inl err \<Rightarrow> (Some err, e)
      | Inr rs \<Rightarrow> (None, e\<lparr>rules := rs\<rparr>))"

text \<open>
  \<open>time.Now()\<close> is a parameter \<open>now\<close> of every function that reads the clock; one call
  of \<open>HandleEvent\<close> or \<open>TestFireRule\<close> reads the same instant throughout.
\<close>

definition isInCooldown :: "Engine \<Rightarrow> nat \<Rightarrow> go_int \<Rightarrow> Time \<Rightarrow> bool" where
  "isInCooldown e ruleID cooldownSec now =
     (if sint cooldownSec \<le> 0 then False
      else case cooldowns e ruleID of
        None \<Rightarrow> False
      | Some lastFired \<Rightarrow> sint (Time_Sub now lastFired) < sint (cooldownSec * Second))"

definition log_Error :: "string \<Rightarrow> Engine \<Rightarrow> Engine" where
  "log_Error msg e = e\<lparr>trace := trace e @ [LogError msg]\<rparr>"

definition fireRule :: "collaborators \<Rightarrow> golib \<Rightarrow> Time \<Rightarrow> AlertRule \<Rightarrow> AlertEvent \<Rightarrow> Engine \<Rightarrow> Engine" where
  "fireRule C L now rule event e =
     (let e = e\<lparr>cooldowns := (cooldowns e)(AlertRule.ID rule \<mapsto> now)\<rparr>;
          (eventJSON, e) =
             (case MarshalProperties L (Properties event) of
                None \<Rightarrow> (''{}'', log_Error ''failed to marshal event properties'' e)
              | Some js \<Rightarrow> (js, e));
          (actionsJSON, e) =
             (case MarshalActions L (AlertRule.Actions rule) of
                None \<Rightarrow> (''[]'', log_Error ''failed to marshal rule actions'' e)
              | Some js \<Rightarrow> (js, e));
          history = \<lparr>RuleID = AlertRule.ID rule, FiredAt = now,
                       EventData = eventJSON, Actions = actionsJSON\<rparr>;
          e = e\<lparr>trace := trace e @ [SaveHistoryCall history]\<rparr>;
          e = (case SaveHistory C history of
                 Some err \<Rightarrow> log_Error ''failed to save alert history'' e
               | None \<Rightarrow> e)
      in if actionFunc_nil C then e
         else e\<lparr>trace := trace e @ [ActionCall rule event]\<rparr>)"

definition TestFireRule :: "collaborators \<Rightarrow> golib \<Rightarrow> Time \<Rightarrow> AlertRule \<Rightarrow> Engine \<Rightarrow> Engine" where
  "TestFireRule C L now rule e =
     (let event = \<lparr>AlertEvent.ObjectType = AlertRule.ObjectType rule,
                     AlertEvent.EventName = AlertRule.EventName rule,
                     AlertEvent.MetricName = AlertRule.MetricName rule,
                     AlertEvent.Properties = [''test'' \<mapsto> VBool True],
                     AlertEvent.Timestamp = now\<rparr>
      in fireRule C L now rule event e)"

text \<open>
  \<open>evaluateMetricConditions\<close>: a condition with a positive \<open>DurationSec\<close> asks the
  tracker, any other one is checked against the event's properties.
\<close>

fun evaluateMetricConditions_loop ::
  "golib \<Rightarrow> MetricTracker \<Rightarrow> string \<Rightarrow> AlertEvent \<Rightarrow> AlertCondition list \<Rightarrow> bool" where
  "evaluateMetricConditions_loop L t metricName event [] = True"
| "evaluateMetricConditions_loop L t metricName event (cond # conds) =
     (if 0 < sint (DurationSec cond)
      then (let duration = DurationSec cond * Second
            in if \<not> IsSustained L t metricName (Operator cond) (Value cond) duration
                       (Timestamp event)
               then False
               else evaluateMetricConditions_loop L t metricName event conds)
      else if \<not> evaluateCondition L cond (Properties event) then False
      else evaluateMetricConditions_loop L t metricName event conds)"

definition evaluateMetricConditions :: "golib \<Rightarrow> Engine \<Rightarrow> AlertRule \<Rightarrow> AlertEvent \<Rightarrow> bool" where
  "evaluateMetricConditions L e rule event =
     evaluateMetricConditions_loop L (metricTracker e) (AlertRule.MetricName rule) event
       (Conditions rule)"

definition ruleMatches :: "golib \<Rightarrow> Engine \<Rightarrow> AlertRule \<Rightarrow> AlertEvent \<Rightarrow> bool" where
  "ruleMatches L e rule event =
     (if AlertRule.ObjectType rule \<noteq> AlertEvent.ObjectType event then False
      else if TriggerType rule = TriggerTypeEvent
              \<and> AlertRule.EventName rule \<noteq> AlertEvent.EventName event then False
      else if TriggerType rule = TriggerTypeMetric
              \<and> AlertRule.MetricName rule \<noteq> AlertEvent.MetricName event then False
      else if TriggerType rule \<noteq> TriggerTypeEvent \<and> TriggerType rule \<noteq> TriggerTypeMetric
        then False
      else if TriggerType rule = TriggerTypeMetric then evaluateMetricConditions L e rule event
      else EvaluateConditions L (Conditions rule) (Properties event))"

text \<open>The body of the loop of \<open>HandleEvent\<close>, for one rule of the snapshot.\<close>

definition handleRule ::
  "collaborators \<Rightarrow> golib \<Rightarrow> Time \<Rightarrow> AlertEvent \<Rightarrow> Engine \<Rightarrow> AlertRule \<Rightarrow> Engine" where
  "handleRule C L now event e rule =
     (if ruleMatches L e rule event \<and> \<not> isInCooldown e (AlertRule.ID rule) (CooldownSec rule) now
      then fireRule C L now rule event e
      else e)"

text \<open>
  The first step of \<open>HandleEvent\<close>: an event that names a metric and carries a numeric
  \<open>value\<close> property is recorded in the tracker, once.
\<close>

definition recordMetric :: "golib \<Rightarrow> AlertEvent \<Rightarrow> Engine \<Rightarrow> Engine" where
  "recordMetric L event e =
     (if AlertEvent.MetricName event \<noteq> []
      then (case Properties event PropertyValue of
              None \<Rightarrow> e
            | Some val \<Rightarrow>
                (case toFloat64 L val of
                   None \<Rightarrow> e
                 | Some floatVal \<Rightarrow>
                     e\<lparr>metricTracker :=
                         Record (metricTracker e) (AlertEvent.MetricName event) floatVal
                           (Timestamp event)\<rparr>))
      else e)"

definition HandleEvent :: "collaborators \<Rightarrow> golib \<Rightarrow> Time \<Rightarrow> AlertEvent \<Rightarrow> Engine \<Rightarrow> Engine" where
  "HandleEvent C L now event e =
     (let e = recordMetric L event e;
          rules = rules e
      in foldl (handleRule C L now event) e rules)"

section \<open>Alert event bus\<close>

definition eventBusBufferSize :: nat where
  "eventBusBufferSize = 1000"

text \<open>
  A handler is a Go function; the model identifies it by a number and records its calls.
  \<open>eventCh\<close> is the content of the buffered channel, oldest event first;
  \<open>stopCh_closed\<close> tells whether \<open>Stop\<close> has closed \<open>stopCh\<close>.
\<close>

type_synonym AlertEventHandler = nat

record AlertEventBus =
  handlers :: "AlertEventHandler list"
  eventCh :: "AlertEvent list"
  stopCh_closed :: bool

definition NewAlertEventBus :: AlertEventBus where
  "NewAlertEventBus = \<lparr>handlers = [], eventCh = [], stopCh_closed = False\<rparr>"

definition Subscribe :: "AlertEventBus \<Rightarrow> AlertEventHandler \<Rightarrow> AlertEventBus" where
  "Subscribe b handler = b\<lparr>handlers := handlers b @ [handler]\<rparr>"

text \<open>
  \<open>Publish\<close> receives a pointer and may set the event's timestamp through it, so the
  model returns the event along with the bus. Its first \<open>select\<close> returns when
  \<open>stopCh\<close> is closed; its second one sends when the channel has room and drops the
  event otherwise.
\<close>

definition stamp :: "AlertEvent \<Rightarrow> Time \<Rightarrow> AlertEvent" where
  "stamp event now =
     (if Time_IsZero (Timestamp event) then event\<lparr>Timestamp := now\<rparr> else event)"

definition try_send :: "AlertEventBus \<Rightarrow> AlertEvent \<Rightarrow> AlertEventBus" where
  "try_send b event =
     (if length (eventCh b) < eventBusBufferSize then b\<lparr>eventCh := eventCh b @ [event]\<rparr>
      else b)"

definition Publish :: "AlertEventBus \<Rightarrow> AlertEvent \<Rightarrow> Time \<Rightarrow> AlertEventBus \<times> AlertEvent" where
  "Publish b event now =
     (if stopCh_closed b then (b, event)
      else let event = stamp event now in (try_send b event, event))"

text \<open>\<open>Stop\<close> closes \<open>stopCh\<close>, once (\<open>sync.Once\<close>).\<close>

definition Stop :: "AlertEventBus \<Rightarrow> AlertEventBus" where
  "Stop b = (if stopCh_closed b then b else b\<lparr>stopCh_closed := True\<rparr>)"

text \<open>
  The bus at work. \<open>NewAlertEventBus\<close> starts the goroutine \<open>processLoop\<close>, and any number
  of goroutines call \<open>Publish\<close>, \<open>Subscribe\<close> and \<open>Stop\<close>. Channel operations and
  \<open>select\<close> statements are atomic, so a run of the program is a sequence of steps, each
  taken by one goroutine:
  \<^item> \<open>Publish\<close> takes two steps, one for each \<open>select\<close>; between them the goroutine
    holds the stamped event (\<open>sending\<close>);
  \<^item> \<open>processLoop\<close> is at its outer \<open>select\<close> (\<open>Selecting\<close>), in its inner loop
    (\<open>Draining\<close>) or has returned; at the outer \<open>select\<close> it may take either case that
    is ready;
  \<^item> \<open>dispatch\<close> calls every subscribed handler, in order, through \<open>safeCall\<close>; a
    handler is taken to return or panic, and each call is recorded in \<open>calls\<close>.
  \<open>enqueued\<close> and \<open>taken\<close> record the events sent on the channel and those received
  from it by the worker, in order.
\<close>

datatype worker_pc = Selecting | Draining | Returned

record system =
  bus :: AlertEventBus
  worker :: worker_pc
  sending :: "nat \<Rightarrow> AlertEvent option"
  calls :: "(AlertEventHandler \<times> AlertEvent) list"
  enqueued :: "AlertEvent list"
  taken :: "AlertEvent list"


definition dispatch :: "AlertEvent \<Rightarrow> system \<Rightarrow> system" where
  "dispatch event s = s\<lparr>calls := calls s @ map (\<lambda>handler. (handler, event)) (handlers (bus s))\<rparr>"

text \<open>\<open>event := <-b.eventCh\<close> followed by \<open>b.dispatch(event)\<close>.\<close>

definition receive :: "system \<Rightarrow> system" where
  "receive s =
     (case eventCh (bus s) of
        [] \<Rightarrow> s
      | event # rest \<Rightarrow>
          dispatch event (s\<lparr>bus := (bus s)\<lparr>eventCh := rest\<rparr>, taken := taken s @ [event]\<rparr>))"

datatype bus_step =
    PublishEnter nat AlertEvent Time
  | PublishSend nat
  | StopCall
  | SubscribeCall AlertEventHandler
  | WorkerReceive
  | WorkerStop
  | WorkerDrain

text \<open>A step of the program; \<open>None\<close> when the goroutine cannot take it in this state.\<close>

fun step :: "bus_step \<Rightarrow> system \<Rightarrow> system option" where
  "step (PublishEnter g event now) s =
     (if sending s g \<noteq> None then None
      else if stopCh_closed (bus s) then Some s
      else Some (s\<lparr>sending := (sending s)(g \<mapsto> stamp event now)\<rparr>))"
| "step (PublishSend g) s =
     (case sending s g of
        None \<Rightarrow> None
      | Some event \<Rightarrow>
          Some (s\<lparr>bus := try_send (bus s) event,
                 sending := (sending s)(g := None),
                 enqueued := (if length (eventCh (bus s)) < eventBusBufferSize
                              then enqueued s @ [event] else enqueued s)\<rparr>))"
| "step StopCall s = Some (s\<lparr>bus := Stop (bus s)\<rparr>)"
| "step (SubscribeCall handler) s = Some (s\<lparr>bus := Subscribe (bus s) handler\<rparr>)"
| "step WorkerReceive s =
     (if worker s = Selecting \<and> eventCh (bus s) \<noteq> [] then Some (receive s) else None)"
| "step WorkerStop s =
     (if worker s = Selecting \<and> stopCh_closed (bus s) then Some (s\<lparr>worker := Draining\<rparr>)
      else None)"
| "step WorkerDrain s =
     (if worker s = Draining
      then (if eventCh (bus s) \<noteq> [] then Some (receive s) else Some (s\<lparr>worker := Returned\<rparr>))
      else None)"

fun run :: "bus_step list \<Rightarrow> system \<Rightarrow> system option" where
  "run [] s = Some s"
| "run (x # xs) s = (case step x s of None \<Rightarrow> None | Some s' \<Rightarrow> run xs s')"


section \<open>Concrete inputs\<close>

text \<open>
  A library instance for evaluating the model on concrete inputs: \<open>ParseFloat\<close> reads
  unsigned decimal integers, which \<open>strconv.ParseFloat\<close> reads to the same value,
  \<open>FoldUnicode\<close> is the case table for runes below \<open>0x100\<close>, where the capital letters
  \<open>0xC0\<close> to \<open>0xDE\<close> of Latin-1 (all but the sign \<open>0xD7\<close>) fold with the small letters
  32 places up, and the JSON encoder succeeds.
\<close>

fun parse_digits :: "nat \<Rightarrow> string \<Rightarrow> nat option" where
  "parse_digits acc [] = Some acc"
| "parse_digits acc (c # cs) =
     (if (48 :: nat) \<le> of_char c \<and> (of_char c :: nat) \<le> 57
      then parse_digits (10 * acc + (of_char c - 48)) cs
      else None)"

definition parse_decimal :: "string \<Rightarrow> float64 option" where
  "parse_decimal s =
     (if s = [] then None
      else case parse_digits 0 s of None \<Rightarrow> None | Some n \<Rightarrow> Some (Finite (of_nat n)))"

definition example_lib :: golib where
  "example_lib =
     \<lparr>ParseFloat = parse_decimal,
      IntToFloat = (\<lambda>i. Finite (of_int i)),
      FormatFloat64 = (\<lambda>f. ''?''),
      FormatFloat32 = (\<lambda>f. ''?''),
      FoldUnicode = (\<lambda>sr tr. 0xC0 \<le> sr \<and> sr \<le> 0xDE \<and> sr \<noteq> 0xD7 \<and> tr = sr + 32),
      LowerUnicode = (\<lambda>s. s),
      MarshalProperties = (\<lambda>m. Some ''{properties}''),
      MarshalActions = (\<lambda>as. Some ''[actions]'')\<rparr>"

text \<open>The struct literal \<open>AlertCondition{Property: p, Operator: o, Value: v, DurationSec: d}\<close>.\<close>

definition Condition :: "string \<Rightarrow> string \<Rightarrow> string \<Rightarrow> go_int \<Rightarrow> AlertCondition" where
  "Condition p oper v d =
     \<lparr>AlertCondition.ID = 0, AlertCondition.RuleID = 0, Property = p, Operator = oper, Value = v,
      DurationSec = d, AlertCondition.SortOrder = 0\<rparr>"

definition example_collaborators :: collaborators where
  "example_collaborators = \<lparr>SaveHistory = (\<lambda>h. None), actionFunc_nil = False\<rparr>"

text \<open>
  An event rule on \<open>stream.disconnected\<close> with one bell action and no conditions, the
  event it matches, and an engine whose cache holds that rule.
\<close>

definition example_rule :: "go_int \<Rightarrow> AlertRule" where
  "example_rule cooldown =
     \<lparr>AlertRule.ID = 1, Name = ''Stream disconnected'', Enabled = True,
      AlertRule.ObjectType = ''stream'', TriggerType = TriggerTypeEvent,
      AlertRule.EventName = ''stream.disconnected'', AlertRule.MetricName = [],
      CooldownSec = cooldown, Conditions = [],
      AlertRule.Actions =
        [\<lparr>AlertAction.ID = 1, AlertAction.RuleID = 1, Target = ''bell'', TemplateTitle = [],
          TemplateMessage = [], AlertAction.SortOrder = 0\<rparr>]\<rparr>"

definition example_event :: "Time \<Rightarrow> AlertEvent" where
  "example_event ts =
     \<lparr>AlertEvent.ObjectType = ''stream'', AlertEvent.EventName = ''stream.disconnected'',
      AlertEvent.MetricName = [], Properties = Map.empty, Timestamp = ts\<rparr>"

definition example_engine :: "go_int \<Rightarrow> Engine" where
  "example_engine cooldown = NewEngine\<lparr>rules := [example_rule cooldown]\<rparr>"

text \<open>Collaborators and a library for which every marshal and every save fails.\<close>

definition failing_lib :: golib where
  "failing_lib = example_lib\<lparr>MarshalProperties := (\<lambda>m. None), MarshalActions := (\<lambda>as. None)\<rparr>"

definition failing_collaborators :: collaborators where
  "failing_collaborators =
     \<lparr>SaveHistory = (\<lambda>h. Some ''database is locked''), actionFunc_nil = False\<rparr>"


section \<open>Notions used in the statements and proofs\<close>

text \<open>
  What \<open>Record\<close> stores for the metric, as a function of the old buffer: the
  eviction loop is \<open>dropWhile\<close>, the constants are written out.
\<close>

definition Record_buffer :: "metricSample list \<Rightarrow> float64 \<Rightarrow> Time \<Rightarrow> metricSample list" where
  "Record_buffer buf v ts =
     (let samples = dropWhile (\<lambda>s. Time_Before (sample_timestamp s) (ts - 1800000000000))
                      (buf @ [\<lparr>sample_value = v, sample_timestamp = ts\<rparr>])
      in if length samples > 120 then drop (length samples - 120) samples else samples)"

text \<open>
  The stored samples of a metric whose timestamp lies in \<open>[now - duration, now]\<close>, in
  buffer order.
\<close>

definition samples_in_window :: "MetricTracker \<Rightarrow> string \<Rightarrow> Duration \<Rightarrow> Time \<Rightarrow> metricSample list" where
  "samples_in_window t metricName duration now =
     filter (\<lambda>s. now - sint duration \<le> sample_timestamp s \<and> sample_timestamp s \<le> now)
       (buffer_of t metricName)"

text \<open>
  The history rows passed to \<open>SaveHistory\<close> in a trace, and the number of them that
  belong to a rule: \<open>fireRule\<close> passes one row each time it runs, so this is the number of
  times the rule has fired.
\<close>

fun saved_rows :: "effect list \<Rightarrow> AlertHistory list" where
  "saved_rows [] = []"
| "saved_rows (SaveHistoryCall h # tr) = h # saved_rows tr"
| "saved_rows (LogError msg # tr) = saved_rows tr"
| "saved_rows (ActionCall rule event # tr) = saved_rows tr"

definition fires_of :: "nat \<Rightarrow> effect list \<Rightarrow> nat" where
  "fires_of ruleID tr = length (filter (\<lambda>h. AlertHistory.RuleID h = ruleID) (saved_rows tr))"

text \<open>The row that \<open>fireRule\<close> builds, and what it adds to the trace.\<close>

definition history_row :: "golib \<Rightarrow> Time \<Rightarrow> AlertRule \<Rightarrow> AlertEvent \<Rightarrow> AlertHistory" where
  "history_row L now rule event =
     \<lparr>AlertHistory.RuleID = AlertRule.ID rule, FiredAt = now,
      EventData = (case MarshalProperties L (Properties event) of None \<Rightarrow> ''{}'' | Some js \<Rightarrow> js),
      AlertHistory.Actions =
        (case MarshalActions L (AlertRule.Actions rule) of None \<Rightarrow> ''[]'' | Some js \<Rightarrow> js)\<rparr>"

definition fire_effects :: "collaborators \<Rightarrow> golib \<Rightarrow> Time \<Rightarrow> AlertRule \<Rightarrow> AlertEvent \<Rightarrow> effect list" where
  "fire_effects C L now rule event =
     (case MarshalProperties L (Properties event) of
        None \<Rightarrow> [LogError ''failed to marshal event properties''] | Some js \<Rightarrow> [])
     @ (case MarshalActions L (AlertRule.Actions rule) of
        None \<Rightarrow> [LogError ''failed to marshal rule actions''] | Some js \<Rightarrow> [])
     @ [SaveHistoryCall (history_row L now rule event)]
     @ (case SaveHistory C (history_row L now rule event) of
        Some err \<Rightarrow> [LogError ''failed to save alert history''] | None \<Rightarrow> [])
     @ (if actionFunc_nil C then [] else [ActionCall rule event])"

text \<open>Whether the loop of \<open>HandleEvent\<close> fires a rule in a given state.\<close>

definition fires :: "golib \<Rightarrow> Time \<Rightarrow> AlertEvent \<Rightarrow> Engine \<Rightarrow> AlertRule \<Rightarrow> bool" where
  "fires L now event e rule =
     (ruleMatches L e rule event \<and> \<not> isInCooldown e (AlertRule.ID rule) (CooldownSec rule) now)"

text \<open>
  The runes of a string, as a \<open>range\<close> loop over it or the conversion \<open>[]rune(s)\<close>
  reads them.
\<close>

function runes :: "string \<Rightarrow> rune list" where
  "runes s =
     (if s = [] then []
      else fst (DecodeRuneInString s) # runes (drop (snd (DecodeRuneInString s)) s))"
  by pat_completeness auto
termination
proof (relation "measure length")
  show "wf (measure length)"
    by simp
next
  fix s :: string
  assume "s \<noteq> []"
  then have "0 < length s" and "0 < snd (DecodeRuneInString s)"
    by (simp_all add: DecodeRuneInString_def Let_def)
  then show "(drop (snd (DecodeRuneInString s)) s, s) \<in> measure length"
    by simp
qed

declare runes.simps [simp del]



section \<open>Properties of the metric tracker\<close>

subsection \<open>The eviction loop\<close>

lemma evict_start_drop:
  "start \<le> length samples \<Longrightarrow>
   drop (evict_start samples cutoff start) samples =
   dropWhile (\<lambda>s. Time_Before (sample_timestamp s) cutoff) (drop start samples)"
proof (induction samples cutoff start rule: evict_start.induct)
  case (1 samples cutoff start)
  show ?case
  proof (cases "start < length samples")
    case inside: True
    then have d: "drop start samples = samples ! start # drop (Suc start) samples"
      by (simp add: Cons_nth_drop_Suc)
    show ?thesis
    proof (cases "Time_Before (sample_timestamp (samples ! start)) cutoff")
      case True
      with inside 1 show ?thesis
        by (subst evict_start.simps) (simp add: d)
    next
      case False
      with inside show ?thesis
        by (subst evict_start.simps) (simp add: d)
    qed
  next
    case False
    with 1(2) show ?thesis
      by (subst evict_start.simps) simp
  qed
qed

lemma evict_start_dropWhile:
  "drop (evict_start samples cutoff 0) samples =
   dropWhile (\<lambda>s. Time_Before (sample_timestamp s) cutoff) samples"
  using evict_start_drop [of 0 samples cutoff] by simp

lemma cutoff_value: "Time_Add ts (- maxSampleAge) = ts - 1800000000000"
  by (simp add: Time_Add_def maxSampleAge_def Minute_def Second_def)

text \<open>
  When a predicate, once false, stays false along a list, nothing that \<open>dropWhile\<close>
  keeps satisfies it.
\<close>

lemma dropWhile_upward:
  assumes "sorted_wrt R xs" and "\<forall>x y. R x y \<longrightarrow> \<not> P x \<longrightarrow> \<not> P y"
    and "s \<in> set (dropWhile P xs)"
  shows "\<not> P s"
  using assms(1,3)
proof (induction xs)
  case Nil
  then show ?case by simp
next
  case (Cons x xs)
  show ?case
  proof (cases "P x")
    case True
    with Cons show ?thesis by simp
  next
    case False
    with Cons.prems have "s = x \<or> (s \<in> set xs \<and> R x s)" by auto
    with False assms(2) show ?thesis by blast
  qed
qed

lemma dropWhile_snoc_upward:
  assumes "sorted_wrt R xs" and "\<forall>x y. R x y \<longrightarrow> \<not> P x \<longrightarrow> \<not> P y"
    and "\<not> P n" and "s \<in> set (dropWhile P (xs @ [n]))"
  shows "\<not> P s"
proof (cases "\<forall>x \<in> set xs. P x")
  case True
  then have "dropWhile P (xs @ [n]) = dropWhile P [n]"
    by (simp add: dropWhile_append2)
  with assms(3,4) show ?thesis by simp
next
  case False
  then have "dropWhile P (xs @ [n]) = dropWhile P xs @ [n]"
    by (auto simp: dropWhile_append1)
  with assms(4) have "s \<in> set (dropWhile P xs) \<or> s = n" by auto
  then show ?thesis
    using dropWhile_upward [OF assms(1,2)] assms(3) by blast
qed

lemma dropWhile_append_fresh:
  assumes "sorted (map sample_timestamp xs)" and "\<not> Time_Before (sample_timestamp n) c"
    and "s \<in> set (dropWhile (\<lambda>s. Time_Before (sample_timestamp s) c) (xs @ [n]))"
  shows "\<not> Time_Before (sample_timestamp s) c"
proof -
  from assms(1) have "sorted_wrt (\<lambda>a b. sample_timestamp a \<le> sample_timestamp b) xs"
    by (simp add: sorted_map)
  moreover have "\<forall>x y. sample_timestamp x \<le> sample_timestamp y \<longrightarrow>
      \<not> Time_Before (sample_timestamp x) c \<longrightarrow> \<not> Time_Before (sample_timestamp y) c"
    unfolding Time_Before_def by auto
  ultimately show ?thesis
    using assms(2,3) by (rule dropWhile_snoc_upward)
qed

subsection \<open>What \<open>Record\<close> leaves in the buffer\<close>

lemma Record_eq:
  "Record t m v ts = t(m \<mapsto> Record_buffer (buffer_of t m) v ts)"
  unfolding Record_def Record_buffer_def Let_def
  by (simp only: evict_start_dropWhile cutoff_value maxSamplesPerMetric_def)

lemma buffer_of_Record_same:
  "buffer_of (Record t m v ts) m = Record_buffer (buffer_of t m) v ts"
  by (simp add: Record_eq buffer_of_def)

lemma buffer_of_Record_other:
  "m' \<noteq> m \<Longrightarrow> buffer_of (Record t m v ts) m' = buffer_of t m'"
  by (simp add: Record_eq buffer_of_def)

lemma buffer_of_New: "buffer_of NewMetricTracker m = []"
  by (simp add: buffer_of_def NewMetricTracker_def)

lemma Record_buffer_length: "length (Record_buffer buf v ts) \<le> 120"
  by (simp add: Record_buffer_def Let_def)

lemma Record_buffer_suffix:
  "\<exists>k. Record_buffer buf v ts = drop k (buf @ [\<lparr>sample_value = v, sample_timestamp = ts\<rparr>])"
proof -
  let ?P = "\<lambda>s. Time_Before (sample_timestamp s) (ts - 1800000000000)"
  let ?xs = "buf @ [\<lparr>sample_value = v, sample_timestamp = ts\<rparr>]"
  obtain j where j: "dropWhile ?P ?xs = drop j ?xs"
    using dropWhile_eq_drop [of ?P ?xs] by blast
  show ?thesis
  proof (cases "length (dropWhile ?P ?xs) > 120")
    case True
    then have "Record_buffer buf v ts = drop (length (dropWhile ?P ?xs) - 120 + j) ?xs"
      unfolding Record_buffer_def Let_def using j by (simp only: if_True drop_drop)
    then show ?thesis by blast
  next
    case False
    then have "Record_buffer buf v ts = drop j ?xs"
      unfolding Record_buffer_def Let_def using j by (simp only: if_False)
    then show ?thesis by blast
  qed
qed

lemma Record_buffer_fresh:
  assumes "sorted (map sample_timestamp buf)" and s: "s \<in> set (Record_buffer buf v ts)"
  shows "\<not> Time_Before (sample_timestamp s) (ts - 1800000000000)"
proof -
  let ?n = "\<lparr>sample_value = v, sample_timestamp = ts\<rparr>"
  let ?P = "\<lambda>s. Time_Before (sample_timestamp s) (ts - 1800000000000)"
  have n: "\<not> ?P ?n"
    by (simp add: Time_Before_def)
  have "set (Record_buffer buf v ts) \<subseteq> set (dropWhile ?P (buf @ [?n]))"
    unfolding Record_buffer_def Let_def
    using set_drop_subset [of _ "dropWhile ?P (buf @ [?n])"] by (simp split: if_split)
  with s have "s \<in> set (dropWhile ?P (buf @ [?n]))" by blast
  from dropWhile_append_fresh [OF assms(1) n this] show ?thesis .
qed

text \<open>
  Samples recorded with timestamps that never decrease keep the buffer in timestamp
  order.
\<close>

lemma Record_keeps_order:
  assumes "sorted (map sample_timestamp (buffer_of t m))"
    and "\<forall>s \<in> set (buffer_of t m). sample_timestamp s \<le> ts"
  shows "sorted (map sample_timestamp (buffer_of (Record t m v ts) m))"
proof -
  let ?new = "\<lparr>sample_value = v, sample_timestamp = ts\<rparr>"
  from assms have "sorted (map sample_timestamp (buffer_of t m @ [?new]))"
    by (simp add: sorted_append)
  then have "sorted (drop k (map sample_timestamp (buffer_of t m @ [?new])))" for k
    by (rule sorted_wrt_drop)
  then have "sorted (map sample_timestamp (drop k (buffer_of t m @ [?new])))" for k
    by (simp only: drop_map)
  moreover obtain k where "buffer_of (Record t m v ts) m = drop k (buffer_of t m @ [?new])"
    unfolding buffer_of_Record_same using Record_buffer_suffix by blast
  ultimately show ?thesis by simp
qed

text \<open>
  C4, as amended. After \<open>Record t m v ts\<close> the buffer of \<open>m\<close> holds at most 120 samples
  and is the old buffer with the new sample appended, less some samples removed from the
  front; the buffers of all other metrics are unchanged; and when the old buffer was in
  non-decreasing timestamp order (samples recorded chronologically), no sample left is
  older than \<open>ts\<close> minus 30 minutes.
\<close>

theorem Record_bounds:
  "length (buffer_of (Record t m v ts) m) \<le> maxSamplesPerMetric
   \<and> (\<exists>k. buffer_of (Record t m v ts) m =
          drop k (buffer_of t m @ [\<lparr>sample_value = v, sample_timestamp = ts\<rparr>]))
   \<and> (\<forall>m'. m' \<noteq> m \<longrightarrow> Record t m v ts m' = t m')
   \<and> (sorted (map sample_timestamp (buffer_of t m)) \<longrightarrow>
        (\<forall>s \<in> set (buffer_of (Record t m v ts) m).
           \<not> Time_Before (sample_timestamp s) (Time_Add ts (- maxSampleAge))))"
proof (intro conjI)
  show "length (buffer_of (Record t m v ts) m) \<le> maxSamplesPerMetric"
    by (simp add: buffer_of_Record_same Record_buffer_length maxSamplesPerMetric_def)
  show "\<exists>k. buffer_of (Record t m v ts) m =
          drop k (buffer_of t m @ [\<lparr>sample_value = v, sample_timestamp = ts\<rparr>])"
    unfolding buffer_of_Record_same by (rule Record_buffer_suffix)
  show "\<forall>m'. m' \<noteq> m \<longrightarrow> Record t m v ts m' = t m'"
    by (simp add: Record_eq)
  show "sorted (map sample_timestamp (buffer_of t m)) \<longrightarrow>
        (\<forall>s \<in> set (buffer_of (Record t m v ts) m).
           \<not> Time_Before (sample_timestamp s) (Time_Add ts (- maxSampleAge)))"
    unfolding buffer_of_Record_same cutoff_value
    using Record_buffer_fresh [of "buffer_of t m" _ v ts] by blast
qed

text \<open>
  Two samples one minute apart are in the buffer of \<open>cpu\<close>; a third one, a minute
  later, is recorded.
\<close>

theorem Record_bounds_witness:
  "sorted (map sample_timestamp
      (buffer_of (Record (Record NewMetricTracker ''cpu'' (Finite 95) 3600000000000)
         ''cpu'' (Finite 96) 3660000000000) ''cpu''))
   \<and> list_all (\<lambda>s. \<not> Time_Before (sample_timestamp s) (Time_Add 3720000000000 (- maxSampleAge)))
        (buffer_of
          (Record (Record (Record NewMetricTracker ''cpu'' (Finite 95) 3600000000000)
             ''cpu'' (Finite 96) 3660000000000) ''cpu'' (Finite 97) 3720000000000) ''cpu'')
   \<and> (''memory'' \<noteq> ''cpu'' \<and>
        Record (Record (Record NewMetricTracker ''cpu'' (Finite 95) 3600000000000)
            ''cpu'' (Finite 96) 3660000000000) ''cpu'' (Finite 97) 3720000000000 ''memory''
        = None)"
proof -
  let ?t = "Record (Record NewMetricTracker ''cpu'' (Finite 95) 3600000000000)
         ''cpu'' (Finite 96) 3660000000000"
  have srt: "sorted (map sample_timestamp (buffer_of ?t ''cpu''))"
    unfolding buffer_of_Record_same buffer_of_New
    by (simp add: Record_buffer_def Time_Before_def)
  have other: "?t ''memory'' = None"
    by (simp add: Record_eq NewMetricTracker_def)
  from Record_bounds [of ?t "''cpu''" "Finite 97" 3720000000000] srt other
  show ?thesis by (simp add: list_all_iff)
qed

text \<open>
  C4 as stated fails when samples arrive out of order: the eviction loop stops at the
  first sample that is recent enough, so an older sample behind it stays. Here a sample
  stamped one hour is recorded between two samples stamped two hours, and is still in the
  buffer after the third call although it is an hour older than that call's timestamp.
\<close>

theorem Record_stale_counterexample:
  "\<not> (\<forall>s \<in> set (buffer_of
          (Record (Record (Record NewMetricTracker ''cpu'' (Finite 95) 7200000000000)
             ''cpu'' (Finite 95) 3600000000000) ''cpu'' (Finite 95) 7200000000000) ''cpu'').
        \<not> Time_Before (sample_timestamp s) (Time_Add 7200000000000 (- maxSampleAge)))"
  unfolding buffer_of_Record_same buffer_of_New
  by (simp add: Record_buffer_def cutoff_value Time_Before_def)

subsection \<open>Durations as integers\<close>


lemma sint_word_of_int_Duration:
  "- (2 ^ 63) \<le> x \<Longrightarrow> x < 2 ^ 63 \<Longrightarrow> sint (word_of_int x :: Duration) = x"
  by (simp add: sint_sbintrunc' signed_take_bit_int_eq_self)



subsection \<open>The sustained-threshold query\<close>






lemma samples_in_window_sorted:
  assumes "sorted (map sample_timestamp (buffer_of t M))"
  shows "sorted (map sample_timestamp (samples_in_window t M D T))"
  using assms unfolding samples_in_window_def by (simp add: sorted_map sorted_wrt_filter)


lemma parse_80: "ParseFloat example_lib ''80'' = Some (Finite 80)"
  by (simp add: example_lib_def parse_decimal_def)









section \<open>Properties of the condition evaluator\<close>

lemma EvaluateConditions_all:
  "EvaluateConditions L conditions properties =
     list_all (\<lambda>c. evaluateCondition L c properties) conditions"
  by (induction conditions) simp_all

lemma evaluateCondition_missing:
  "properties (Property c) = None \<Longrightarrow> \<not> evaluateCondition L c properties"
  by (simp add: evaluateCondition_def)

text \<open>
  C3. \<open>EvaluateConditions\<close> returns true if and only if every condition of the list
  matches; the empty list matches for every property map; and a condition whose property
  is absent from the map does not match, whatever its operator.
\<close>

theorem EvaluateConditions_AND:
  "(EvaluateConditions L conditions properties \<longleftrightarrow>
      (\<forall>c \<in> set conditions. evaluateCondition L c properties))
   \<and> EvaluateConditions L [] properties
   \<and> (properties (Property c) = None \<longrightarrow> \<not> evaluateCondition L c properties)"
  by (simp add: EvaluateConditions_all list_all_iff evaluateCondition_missing)

lemma EqualFold_Robin: "EqualFold L ''Robin'' ''robin''"
  by (simp add: is_ascii_def ascii_fold_eq_def is_upper_def)

text \<open>
  A rule with two conditions, both matched by the event's properties, and a condition
  on a property that the event does not carry.
\<close>

theorem EvaluateConditions_AND_witness:
  "EvaluateConditions example_lib
     [Condition ''species_name'' OperatorIs ''robin'' 0,
      Condition ''confidence'' OperatorGreaterThan ''80'' 0]
     [''species_name'' \<mapsto> VString ''Robin'', ''confidence'' \<mapsto> VInt 90]
   \<and> [''species_name'' \<mapsto> VString ''Robin'', ''confidence'' \<mapsto> VInt 90]
        (Property (Condition ''location'' OperatorIsNot ''garden'' 0)) = None
   \<and> \<not> evaluateCondition example_lib (Condition ''location'' OperatorIsNot ''garden'' 0)
        [''species_name'' \<mapsto> VString ''Robin'', ''confidence'' \<mapsto> VInt 90]"
proof -
  let ?props = "[''species_name'' \<mapsto> VString ''Robin'', ''confidence'' \<mapsto> VInt 90]"
  let ?c1 = "Condition ''species_name'' OperatorIs ''robin'' 0"
  let ?c2 = "Condition ''confidence'' OperatorGreaterThan ''80'' 0"
  let ?c3 = "Condition ''location'' OperatorIsNot ''garden'' 0"
  have c1: "evaluateCondition example_lib ?c1 ?props"
    by (simp add: evaluateCondition_def Condition_def Sprint_def OperatorIs_def EqualFold_Robin
        del: EqualFold.simps)
  have c2: "evaluateCondition example_lib ?c2 ?props"
    by (simp add: evaluateCondition_def Condition_def evaluateNumeric_def toFloat64_def
        parse_80 example_lib_def parse_decimal_def
        OperatorIs_def OperatorIsNot_def OperatorContains_def OperatorNotContains_def
        OperatorGreaterThan_def)
  have missing: "?props (Property ?c3) = None"
    by (simp add: Condition_def)
  from EvaluateConditions_AND [of example_lib "[?c1, ?c2]" ?props ?c3] c1 c2 missing
  show ?thesis by simp
qed

subsection \<open>Case folding\<close>

lemma of_char_ascii_lower:
  "(of_char (ascii_lower c) :: nat) = (if is_upper c then of_char c + 32 else of_char c)"
proof (cases "is_upper c")
  case True
  then have "(of_char c :: nat) + 32 < 256"
    by (simp add: is_upper_def)
  with True show ?thesis
    by (simp add: ascii_lower_def)
next
  case False
  then show ?thesis by (simp add: ascii_lower_def)
qed

lemma ascii_lower_eq_iff:
  "ascii_lower a = ascii_lower b \<longleftrightarrow>
     (of_char (ascii_lower a) :: nat) = of_char (ascii_lower b)"
  by simp

lemma ascii_fold_eq_iff: "ascii_fold_eq a b \<longleftrightarrow> ascii_lower a = ascii_lower b"
proof -
  have eq: "b = a \<longleftrightarrow> (of_char b :: nat) = of_char a"
    by auto
  show ?thesis
    unfolding ascii_lower_eq_iff of_char_ascii_lower ascii_fold_eq_def Let_def eq
    by (auto simp: is_upper_def)
qed

lemma EqualFold_ascii:
  "list_all is_ascii s \<Longrightarrow> list_all is_ascii t \<Longrightarrow>
   EqualFold L s t \<longleftrightarrow> map ascii_lower s = map ascii_lower t"
proof (induction L s t rule: EqualFold.induct)
  case (1 L t)
  then show ?case by auto
next
  case (2 L sr s)
  then show ?case by simp
next
  case (3 L sr s tr t)
  then show ?case
    by (simp add: ascii_fold_eq_iff)
qed

text \<open>
  Lower-casing the letters \<open>A\<close> to \<open>Z\<close> leaves every byte from \<open>0x80\<close> on as it is, and
  gives none.
\<close>

lemma ascii_lower_high:
  assumes "ascii_lower c = ascii_lower d"
    and "128 \<le> (of_char c :: nat) \<or> 128 \<le> (of_char d :: nat)"
  shows "c = d"
proof -
  from assms(1) have "(of_char (ascii_lower c) :: nat) = of_char (ascii_lower d)"
    by simp
  with assms(2) have "(of_char c :: nat) = of_char d"
    unfolding of_char_ascii_lower by (auto simp: is_upper_def split: if_splits)
  then show ?thesis by simp
qed

lemma ascii_lower_low:
  assumes "ascii_lower c = ascii_lower d" and "is_ascii c"
  shows "is_ascii d"
proof (rule ccontr)
  assume "\<not> is_ascii d"
  then have "128 \<le> (of_char c :: nat) \<or> 128 \<le> (of_char d :: nat)"
    by (simp add: is_ascii_def)
  with assms(1) have "c = d" by (rule ascii_lower_high)
  with assms(2) \<open>\<not> is_ascii d\<close> show False by simp
qed

subsection \<open>Reading runes\<close>

lemma Decode_ascii:
  "is_ascii c \<Longrightarrow> DecodeRuneInString (c # cs) = (of_char c, 1)"
  by (simp add: DecodeRuneInString_def first_def is_ascii_def)

lemma equalFoldRune_ascii:
  "is_ascii sr \<Longrightarrow> is_ascii tr \<Longrightarrow>
   equalFoldRune L (of_char sr) (of_char tr) = ascii_fold_eq sr tr"
  by (auto simp: equalFoldRune_def ascii_fold_eq_def is_ascii_def is_upper_def RuneSelf_def
      Let_def)

lemma first_lead:
  assumes "first b < 0xF0"
  shows "128 \<le> fst (acceptRanges (first b div 16))" and "2 \<le> first b mod 8"
  using assms by (simp_all add: first_def acceptRanges_def split: if_splits)

text \<open>
  Two strings of the same length that agree on their first byte and on every byte that
  is not ASCII in either of them start with the same rune.
\<close>

lemma Decode_cong:
  assumes len: "length s = length t" and hd: "s ! 0 = t ! 0"
    and same: "\<And>i. i < length s \<Longrightarrow> s ! i = t ! i \<or> (is_ascii (s ! i) \<and> is_ascii (t ! i))"
  shows "DecodeRuneInString s = DecodeRuneInString t"
proof (cases "length s < 1 \<or> 0xF0 \<le> first (of_char (t ! 0))")
  case True
  with len hd show ?thesis
    by (auto simp: DecodeRuneInString_def Let_def)
next
  case False
  define x where "x = first (of_char (t ! 0))"
  define lo where "lo = fst (acceptRanges (x div 16))"
  define hi where "hi = snd (acceptRanges (x div 16))"
  from False have x: "x < 0xF0" and n: "1 \<le> length s"
    by (simp_all add: x_def Suc_le_eq)
  from first_lead [of "of_char (t ! 0)"] x have lo: "128 \<le> lo" and sz: "2 \<le> x mod 8"
    by (simp_all add: x_def lo_def)
  have byte: "(of_char (s ! i) :: nat) = of_char (t ! i)
      \<or> ((of_char (s ! i) :: nat) < 128 \<and> (of_char (t ! i) :: nat) < 128)"
    if "i < length s" for i
    using same [OF that] by (auto simp: is_ascii_def)
  have unfold: "DecodeRuneInString u =
      (if length u < x mod 8 then (RuneError, 1)
       else if (of_char (u ! 1) :: nat) < lo \<or> hi < of_char (u ! 1) then (RuneError, 1)
       else if x mod 8 \<le> 2
         then (((of_char (u ! 0) :: nat) mod 32) * 64 + of_char (u ! 1) mod 64, 2)
       else if (of_char (u ! 2) :: nat) < 0x80 \<or> 0xBF < (of_char (u ! 2) :: nat)
         then (RuneError, 1)
       else if x mod 8 \<le> 3
         then (((of_char (u ! 0) :: nat) mod 16) * 4096 + (of_char (u ! 1) mod 64) * 64
                 + of_char (u ! 2) mod 64, 3)
       else if (of_char (u ! 3) :: nat) < 0x80 \<or> 0xBF < (of_char (u ! 3) :: nat)
         then (RuneError, 1)
       else (((of_char (u ! 0) :: nat) mod 8) * 262144 + (of_char (u ! 1) mod 64) * 4096
               + (of_char (u ! 2) mod 64) * 64 + of_char (u ! 3) mod 64, 4))"
    if "length u = length t" and "u ! 0 = t ! 0" for u
  proof -
    from that(1) n len have a: "\<not> length u < 1" by auto
    from that(2) have b: "first (of_char (u ! 0)) = x" by (simp add: x_def)
    from x have c: "\<not> 0xF0 \<le> x" by simp
    show ?thesis
      unfolding DecodeRuneInString_def Let_def b lo_def hi_def
      by (simp only: a c if_False)
  qed
  show ?thesis
  proof (cases "length s < x mod 8")
    case True
    with len show ?thesis
      by (simp add: unfold [OF len hd] unfold [OF refl refl])
  next
    case long: False
    with sz have "1 < length s" by simp
    note b1 = byte [OF this]
    show ?thesis
    proof (cases "(of_char (s ! 1) :: nat) < lo \<or> hi < of_char (s ! 1)")
      case True
      with b1 lo long len show ?thesis
        by (auto simp: unfold [OF len hd] unfold [OF refl refl])
    next
      case ok1: False
      with b1 lo have e1: "(of_char (s ! 1) :: nat) = of_char (t ! 1)"
        by auto
      show ?thesis
      proof (cases "x mod 8 \<le> 2")
        case True
        with long ok1 e1 len hd show ?thesis
          by (simp add: unfold [OF len hd] unfold [OF refl refl])
      next
        case three: False
        with long have "2 < length s" by simp
        note b2 = byte [OF this]
        show ?thesis
        proof (cases "(of_char (s ! 2) :: nat) < 0x80 \<or> 0xBF < (of_char (s ! 2) :: nat)")
          case True
          with b2 long ok1 e1 three len show ?thesis
            by (auto simp: unfold [OF len hd] unfold [OF refl refl])
        next
          case ok2: False
          with b2 have e2: "(of_char (s ! 2) :: nat) = of_char (t ! 2)"
            by auto
          show ?thesis
          proof (cases "x mod 8 \<le> 3")
            case True
            with long ok1 e1 three ok2 e2 len hd show ?thesis
              by (simp add: unfold [OF len hd] unfold [OF refl refl])
          next
            case four: False
            with long have "3 < length s" by simp
            note b3 = byte [OF this]
            from b3 long ok1 e1 three ok2 e2 four len hd show ?thesis
              by (auto simp: unfold [OF len hd] unfold [OF refl refl])
          qed
        qed
      qed
    qed
  qed
qed

lemma Decode_size:
  "s \<noteq> [] \<Longrightarrow> 0 < snd (DecodeRuneInString s)"
  by (simp add: DecodeRuneInString_def Let_def)

text \<open>
  Two strings that are equal after lower-casing the letters \<open>A\<close> to \<open>Z\<close> start with
  runes of the same width that are equal under folding.
\<close>

lemma Decode_lockstep:
  assumes eq: "map ascii_lower s = map ascii_lower t" and ne: "s \<noteq> []"
  shows "snd (DecodeRuneInString s) = snd (DecodeRuneInString t)"
    and "equalFoldRune L (fst (DecodeRuneInString s)) (fst (DecodeRuneInString t))"
proof -
  from eq have len: "length s = length t"
    by (rule map_eq_imp_length_eq)
  have low: "ascii_lower (s ! i) = ascii_lower (t ! i)" if "i < length s" for i
  proof -
    from that len have "i < length t" by simp
    from nth_map [OF that, of ascii_lower] nth_map [OF this, of ascii_lower] eq
    show ?thesis by simp
  qed
  from ne len obtain c cs d ds where s: "s = c # cs" and t: "t = d # ds"
    by (cases s; cases t) auto
  from low [of 0] s t have cd: "ascii_lower c = ascii_lower d" by simp
  have "snd (DecodeRuneInString s) = snd (DecodeRuneInString t)
      \<and> equalFoldRune L (fst (DecodeRuneInString s)) (fst (DecodeRuneInString t))"
  proof (cases "is_ascii c")
    case True
    with cd have d: "is_ascii d" by (rule ascii_lower_low)
    from cd have "ascii_fold_eq c d"
      by (simp only: ascii_fold_eq_iff)
    with True d have "equalFoldRune L (of_char c) (of_char d)"
      by (simp only: equalFoldRune_ascii)
    moreover have "DecodeRuneInString s = (of_char c, 1)"
      unfolding s using True by (rule Decode_ascii)
    moreover have "DecodeRuneInString t = (of_char d, 1)"
      unfolding t using d by (rule Decode_ascii)
    ultimately show ?thesis
      by (simp only: fst_conv snd_conv simp_thms)
  next
    case False
    from cd have "c = d"
      by (rule ascii_lower_high) (use False in \<open>simp add: is_ascii_def\<close>)
    with s t have hd: "s ! 0 = t ! 0" by simp
    have "s ! i = t ! i \<or> (is_ascii (s ! i) \<and> is_ascii (t ! i))" if "i < length s" for i
    proof (cases "is_ascii (s ! i) \<and> is_ascii (t ! i)")
      case True
      then show ?thesis by simp
    next
      case False
      from low [OF that] have "s ! i = t ! i"
        by (rule ascii_lower_high) (use False in \<open>auto simp: is_ascii_def\<close>)
      then show ?thesis by simp
    qed
    with len hd have "DecodeRuneInString s = DecodeRuneInString t"
      by (rule Decode_cong)
    then show ?thesis
      by (simp add: equalFoldRune_def)
  qed
  then show "snd (DecodeRuneInString s) = snd (DecodeRuneInString t)"
    and "equalFoldRune L (fst (DecodeRuneInString s)) (fst (DecodeRuneInString t))"
    by simp_all
qed

subsection \<open>The two loops of \<open>strings.EqualFold\<close>\<close>

lemma hasUnicode_Nil: "hasUnicode L [] t = (t = [])"
  by (subst hasUnicode.simps) simp

lemma hasUnicode_Nil2: "hasUnicode L (sr # s) [] = False"
  by (subst hasUnicode.simps) simp

lemma hasUnicode_ascii:
  assumes "is_ascii sr" and "is_ascii tr"
  shows "hasUnicode L (sr # s) (tr # t) = (ascii_fold_eq sr tr \<and> hasUnicode L s t)"
  by (subst hasUnicode.simps)
    (simp add: Decode_ascii [OF assms(1)] Decode_ascii [OF assms(2)]
      equalFoldRune_ascii [OF assms])

text \<open>The first loop gives what the second one would give from the start.\<close>

lemma EqualFold_hasUnicode: "EqualFold L s t = hasUnicode L s t"
proof (induction L s t rule: EqualFold.induct)
  case (1 L t)
  show ?case by (simp add: hasUnicode_Nil)
next
  case (2 L sr s)
  show ?case by (simp add: hasUnicode_Nil2)
next
  case (3 L sr s tr t)
  show ?case
  proof (cases "is_ascii sr \<and> is_ascii tr")
    case True
    with 3 show ?thesis
      by (simp add: hasUnicode_ascii)
  next
    case False
    then show ?thesis by auto
  qed
qed

lemma runes_Nil: "runes [] = []"
  by (subst runes.simps) simp

lemma runes_Cons:
  "s \<noteq> [] \<Longrightarrow>
   runes s = fst (DecodeRuneInString s) # runes (drop (snd (DecodeRuneInString s)) s)"
  by (subst runes.simps) simp

lemma runes_empty_iff: "runes s = [] \<longleftrightarrow> s = []"
  by (cases "s = []") (simp_all add: runes_Nil runes_Cons)

text \<open>The second loop compares the two strings rune by rune.\<close>

lemma hasUnicode_runes:
  "hasUnicode L s t = list_all2 (equalFoldRune L) (runes s) (runes t)"
proof (induction L s t rule: hasUnicode.induct)
  case (1 L s t)
  show ?case
  proof (cases "s = []")
    case True
    then show ?thesis
      by (simp add: hasUnicode_Nil runes_Nil runes_empty_iff)
  next
    case s: False
    show ?thesis
    proof (cases "t = []")
      case True
      with s show ?thesis
        by (subst hasUnicode.simps) (simp add: runes_Nil runes_empty_iff)
    next
      case t: False
      show ?thesis
      proof (cases "equalFoldRune L (fst (DecodeRuneInString s)) (fst (DecodeRuneInString t))")
        case True
        from 1 [OF s t True] s t True show ?thesis
          by (subst hasUnicode.simps) (simp add: runes_Cons [OF s] runes_Cons [OF t])
      next
        case False
        with s t show ?thesis
          by (subst hasUnicode.simps) (simp add: runes_Cons [OF s] runes_Cons [OF t])
      qed
    qed
  qed
qed

lemma EqualFold_runes:
  "EqualFold L s t = list_all2 (equalFoldRune L) (runes s) (runes t)"
  by (simp only: EqualFold_hasUnicode hasUnicode_runes)

text \<open>
  Two strings that are equal after lower-casing the letters \<open>A\<close> to \<open>Z\<close>, whatever
  their other bytes, are equal under folding.
\<close>

lemma hasUnicode_lower:
  "map ascii_lower s = map ascii_lower t \<Longrightarrow> hasUnicode L s t"
proof (induction L s t rule: hasUnicode.induct)
  case (1 L s t)
  show ?case
  proof (cases "s = []")
    case True
    with 1(2) show ?thesis
      by (simp add: hasUnicode_Nil)
  next
    case s: False
    with 1(2) have t: "t \<noteq> []" by auto
    note step = Decode_lockstep(1) [OF 1(2) s] Decode_lockstep(2) [OF 1(2) s, of L]
    have "map ascii_lower (drop (snd (DecodeRuneInString s)) s)
        = map ascii_lower (drop (snd (DecodeRuneInString t)) t)"
      unfolding step(1) [symmetric] drop_map [symmetric] using 1(2) by simp
    from 1(1) [OF s t step(2) this] s t step(2) show ?thesis
      by (subst hasUnicode.simps) simp
  qed
qed

lemma EqualFold_lower:
  "map ascii_lower s = map ascii_lower t \<Longrightarrow> EqualFold L s t"
  by (simp only: EqualFold_hasUnicode hasUnicode_lower)

text \<open>
  C8. For a property that is present in the map, a condition with operator
  \<open>contains\<close> and the same condition with operator \<open>not_contains\<close> return opposite
  results. The operator \<open>is\<close> compares without regard to case, whatever the type of
  the property's value, its printed form \<open>Sprint L v\<close> being compared:
  \<^item> it matches exactly when the printed form and the condition's value have the same
    number of runes and each rune of the one is equal under folding to the rune at the
    same place in the other: the same rune, the upper and lower case of one of the
    letters \<open>A\<close> to \<open>Z\<close>, or two runes that the Unicode case tables put together;
  \<^item> so it matches whenever the two strings are equal after lower-casing the letters
    \<open>A\<close> to \<open>Z\<close>, whatever other bytes they hold;
  \<^item> and when both strings are ASCII it matches exactly when they are equal after
    lower-casing;
  \<^item> the value \<open>robin\<close> matches the property value \<open>Robin\<close>.
\<close>

theorem contains_inverse_is_folds:
  "(properties (Property c) \<noteq> None \<longrightarrow>
      evaluateCondition L (c\<lparr>Operator := OperatorContains\<rparr>) properties =
        (\<not> evaluateCondition L (c\<lparr>Operator := OperatorNotContains\<rparr>) properties))
   \<and> (properties (Property c) = Some v \<longrightarrow>
      evaluateCondition L (c\<lparr>Operator := OperatorIs\<rparr>) properties =
        list_all2 (equalFoldRune L) (runes (Sprint L v)) (runes (Value c)))
   \<and> (properties (Property c) = Some v
        \<and> map ascii_lower (Sprint L v) = map ascii_lower (Value c) \<longrightarrow>
      evaluateCondition L (c\<lparr>Operator := OperatorIs\<rparr>) properties)
   \<and> (properties (Property c) = Some v \<and> list_all is_ascii (Sprint L v)
        \<and> list_all is_ascii (Value c) \<longrightarrow>
      evaluateCondition L (c\<lparr>Operator := OperatorIs\<rparr>) properties =
        (map ascii_lower (Sprint L v) = map ascii_lower (Value c)))
   \<and> evaluateCondition L (Condition p OperatorIs ''robin'' d) [p \<mapsto> VString ''Robin'']"
proof -
  have "is": "evaluateCondition L (c\<lparr>Operator := OperatorIs\<rparr>) properties
      = EqualFold L (Sprint L v) (Value c)"
    if "properties (Property c) = Some v"
    using that by (simp add: evaluateCondition_def del: EqualFold.simps)
  have inverse: "evaluateCondition L (c\<lparr>Operator := OperatorContains\<rparr>) properties =
        (\<not> evaluateCondition L (c\<lparr>Operator := OperatorNotContains\<rparr>) properties)"
    if "properties (Property c) \<noteq> None"
  proof -
    from that obtain w where w: "properties (Property c) = Some w" by blast
    show ?thesis
      by (simp add: evaluateCondition_def w OperatorContains_def OperatorNotContains_def
          OperatorIs_def OperatorIsNot_def)
  qed
  have exact: "evaluateCondition L (c\<lparr>Operator := OperatorIs\<rparr>) properties =
        list_all2 (equalFoldRune L) (runes (Sprint L v)) (runes (Value c))"
    if "properties (Property c) = Some v"
    unfolding "is" [OF that] by (rule EqualFold_runes)
  have lower: "evaluateCondition L (c\<lparr>Operator := OperatorIs\<rparr>) properties"
    if "properties (Property c) = Some v
        \<and> map ascii_lower (Sprint L v) = map ascii_lower (Value c)"
  proof -
    from that have "EqualFold L (Sprint L v) (Value c)"
      by (intro EqualFold_lower) simp
    with that show ?thesis
      by (simp only: "is")
  qed
  have ascii: "evaluateCondition L (c\<lparr>Operator := OperatorIs\<rparr>) properties =
        (map ascii_lower (Sprint L v) = map ascii_lower (Value c))"
    if "properties (Property c) = Some v \<and> list_all is_ascii (Sprint L v)
        \<and> list_all is_ascii (Value c)"
  proof -
    from that have "EqualFold L (Sprint L v) (Value c)
        \<longleftrightarrow> map ascii_lower (Sprint L v) = map ascii_lower (Value c)"
      by (intro EqualFold_ascii) simp_all
    with that show ?thesis
      by (simp only: "is")
  qed
  have robin: "evaluateCondition L (Condition p OperatorIs ''robin'' d) [p \<mapsto> VString ''Robin'']"
    by (simp add: evaluateCondition_def Condition_def Sprint_def EqualFold_Robin
        del: EqualFold.simps)
  from inverse exact lower ascii robin show ?thesis
    by (intro conjI impI)
qed

lemma ascii_lower_upper:
  assumes "is_upper c" and "(of_char d :: nat) = of_char c + 32"
  shows "ascii_lower c = d"
proof (rule of_char_eq_iff [where ?'a = nat, THEN iffD1])
  show "(of_char (ascii_lower c) :: nat) = of_char d"
    unfolding of_char_ascii_lower using assms by simp
qed

lemma ascii_lower_B: "ascii_lower CHR ''B'' = CHR ''b''"
  by (rule ascii_lower_upper) (simp_all add: is_upper_def)

lemma ascii_lower_R: "ascii_lower CHR ''R'' = CHR ''r''"
  by (rule ascii_lower_upper) (simp_all add: is_upper_def)

lemma ascii_lower_T: "ascii_lower CHR ''T'' = CHR ''t''"
  by (rule ascii_lower_upper) (simp_all add: is_upper_def)

lemma ascii_lower_lackbird: "map ascii_lower ''lackbird'' = ''lackbird''"
  by (simp add: ascii_lower_def is_upper_def)

lemma runes_two_bytes:
  "runes [CHR 0xC3, CHR 0x89] = [0xC9]" "runes [CHR 0xC3, CHR 0xA9] = [0xE9]"
  by (simp_all add: runes_Cons runes_Nil DecodeRuneInString_def first_def acceptRanges_def)

text \<open>
  The property \<open>species_name\<close> holds \<open>Blackbird\<close>: \<open>contains bird\<close> matches and
  \<open>not_contains bird\<close> does not, and \<open>is blackbird\<close> matches. The value \<open>r\<close>
  followed by the two bytes of a small e with acute accent matches the property that
  holds \<open>R\<close> followed by the same two bytes, and the value \<open>True\<close> matches a property
  that holds the boolean true. With the case table of Latin-1, a small e with acute
  accent matches the capital one (runes \<open>0xE9\<close> and \<open>0xC9\<close>).
\<close>

theorem contains_inverse_is_folds_witness:
  "[''species_name'' \<mapsto> VString ''Blackbird'']
      (Property (Condition ''species_name'' OperatorContains ''bird'' 0)) \<noteq> None
   \<and> evaluateCondition example_lib (Condition ''species_name'' OperatorContains ''bird'' 0)
        [''species_name'' \<mapsto> VString ''Blackbird'']
   \<and> \<not> evaluateCondition example_lib (Condition ''species_name'' OperatorNotContains ''bird'' 0)
        [''species_name'' \<mapsto> VString ''Blackbird'']
   \<and> list_all is_ascii ''Blackbird'' \<and> list_all is_ascii ''blackbird''
   \<and> evaluateCondition example_lib (Condition ''species_name'' OperatorIs ''blackbird'' 0)
        [''species_name'' \<mapsto> VString ''Blackbird'']
   \<and> map ascii_lower [CHR ''R'', CHR 0xC3, CHR 0xA9] = map ascii_lower [CHR ''r'', CHR 0xC3, CHR 0xA9]
   \<and> evaluateCondition example_lib
        (Condition ''name'' OperatorIs [CHR ''r'', CHR 0xC3, CHR 0xA9] 0)
        [''name'' \<mapsto> VString [CHR ''R'', CHR 0xC3, CHR 0xA9]]
   \<and> evaluateCondition example_lib (Condition ''enabled'' OperatorIs ''True'' 0)
        [''enabled'' \<mapsto> VBool True]
   \<and> evaluateCondition example_lib (Condition ''name'' OperatorIs [CHR 0xC3, CHR 0xA9] 0)
        [''name'' \<mapsto> VString [CHR 0xC3, CHR 0x89]]"
proof -
  let ?props = "[''species_name'' \<mapsto> VString ''Blackbird'']"
  let ?c = "Condition ''species_name'' OperatorContains ''bird'' 0"
  let ?c' = "Condition ''species_name'' OperatorIs ''blackbird'' 0"
  let ?Re = "[CHR ''R'', CHR 0xC3, CHR 0xA9]"
  let ?re = "[CHR ''r'', CHR 0xC3, CHR 0xA9]"
  let ?cr = "Condition ''name'' OperatorIs ?re 0"
  let ?ct = "Condition ''enabled'' OperatorIs ''True'' 0"
  let ?ce = "Condition ''name'' OperatorIs [CHR 0xC3, CHR 0xA9] 0"
  have present: "?props (Property ?c) \<noteq> None" "?props (Property ?c') = Some (VString ''Blackbird'')"
    "[''name'' \<mapsto> VString ?Re] (Property ?cr) = Some (VString ?Re)"
    "[''enabled'' \<mapsto> VBool True] (Property ?ct) = Some (VBool True)"
    "[''name'' \<mapsto> VString [CHR 0xC3, CHR 0x89]] (Property ?ce)
       = Some (VString [CHR 0xC3, CHR 0x89])"
    by (simp_all add: Condition_def)
  have ascii: "list_all is_ascii ''Blackbird''" "list_all is_ascii ''blackbird''"
    "list_all is_ascii ''bird''"
    by (simp_all add: is_ascii_def)
  have upd: "?c\<lparr>Operator := OperatorContains\<rparr> = ?c"
    "?c\<lparr>Operator := OperatorNotContains\<rparr> = Condition ''species_name'' OperatorNotContains ''bird'' 0"
    "?c'\<lparr>Operator := OperatorIs\<rparr> = ?c'" "Value ?c' = ''blackbird''"
    "?cr\<lparr>Operator := OperatorIs\<rparr> = ?cr" "Value ?cr = ?re"
    "?ct\<lparr>Operator := OperatorIs\<rparr> = ?ct" "Value ?ct = ''True''"
    "?ce\<lparr>Operator := OperatorIs\<rparr> = ?ce" "Value ?ce = [CHR 0xC3, CHR 0xA9]"
    by (simp_all add: Condition_def)
  have printed: "Sprint example_lib (VString ''Blackbird'') = ''Blackbird''"
    "Sprint example_lib (VString ?Re) = ?Re"
    "Sprint example_lib (VBool True) = ''true''"
    "Sprint example_lib (VString [CHR 0xC3, CHR 0x89]) = [CHR 0xC3, CHR 0x89]"
    by (simp_all add: Sprint_def)
  have lower: "ToLower example_lib ''Blackbird'' = ''blackbird''"
    "ToLower example_lib ''bird'' = ''bird''"
    using ascii_lower_B ascii_lower_lackbird
    by (simp_all add: ToLower_def is_ascii_def is_upper_def)
  have yes: "evaluateCondition example_lib ?c ?props"
    by (simp add: evaluateCondition_def Condition_def Sprint_def lower
        OperatorContains_def OperatorIs_def OperatorIsNot_def)
  have folded: "map ascii_lower ''Blackbird'' = map ascii_lower ''blackbird''"
    using ascii_lower_B ascii_lower_lackbird by (simp add: ascii_lower_def is_upper_def)
  have folded_re: "map ascii_lower ?Re = map ascii_lower ?re"
    using ascii_lower_R by (simp add: ascii_lower_def is_upper_def)
  have folded_true: "map ascii_lower ''true'' = map ascii_lower ''True''"
    using ascii_lower_T by (simp add: ascii_lower_def is_upper_def)
  have e_acute: "list_all2 (equalFoldRune example_lib) (runes [CHR 0xC3, CHR 0x89])
      (runes [CHR 0xC3, CHR 0xA9])"
    unfolding runes_two_bytes
    by (simp add: equalFoldRune_def RuneSelf_def example_lib_def)
  note at_c = contains_inverse_is_folds [where properties = ?props and c = ?c
      and L = example_lib, THEN conjunct1, unfolded upd]
  note at_c' = contains_inverse_is_folds [where properties = ?props and c = ?c'
      and L = example_lib and v = "VString ''Blackbird''",
      THEN conjunct2, THEN conjunct2, THEN conjunct2, THEN conjunct1, unfolded upd printed]
  note at_re = contains_inverse_is_folds [where properties = "[''name'' \<mapsto> VString ?Re]"
      and c = ?cr and L = example_lib and v = "VString ?Re",
      THEN conjunct2, THEN conjunct2, THEN conjunct1, unfolded upd printed]
  note at_true = contains_inverse_is_folds [where properties = "[''enabled'' \<mapsto> VBool True]"
      and c = ?ct and L = example_lib and v = "VBool True",
      THEN conjunct2, THEN conjunct2, THEN conjunct1, unfolded upd printed]
  note at_e = contains_inverse_is_folds [
      where properties = "[''name'' \<mapsto> VString [CHR 0xC3, CHR 0x89]]"
      and c = ?ce and L = example_lib and v = "VString [CHR 0xC3, CHR 0x89]",
      THEN conjunct2, THEN conjunct1, unfolded upd printed]
  from at_c present(1) yes
  have no: "\<not> evaluateCondition example_lib
      (Condition ''species_name'' OperatorNotContains ''bird'' 0) ?props"
    by blast
  from at_c' present(2) ascii(1,2) folded
  have is_blackbird: "evaluateCondition example_lib ?c' ?props"
    by blast
  from at_re present(3) folded_re
  have is_re: "evaluateCondition example_lib ?cr [''name'' \<mapsto> VString ?Re]"
    by blast
  from at_true present(4) folded_true
  have is_true: "evaluateCondition example_lib ?ct [''enabled'' \<mapsto> VBool True]"
    by blast
  from at_e present(5) e_acute
  have is_e: "evaluateCondition example_lib ?ce [''name'' \<mapsto> VString [CHR 0xC3, CHR 0x89]]"
    by blast
  from present(1) yes no ascii(1,2) is_blackbird folded_re is_re is_true is_e show ?thesis
    by (intro conjI)
qed

section \<open>Properties of the engine\<close>

subsection \<open>What firing a rule does\<close>

lemma fireRule_eq:
  "fireRule C L now rule event e =
     e\<lparr>cooldowns := (cooldowns e)(AlertRule.ID rule \<mapsto> now),
       trace := trace e @ fire_effects C L now rule event\<rparr>"
  by (cases "MarshalProperties L (Properties event)";
      cases "MarshalActions L (AlertRule.Actions rule)";
      cases "SaveHistory C (history_row L now rule event)")
     (simp_all add: fireRule_def fire_effects_def history_row_def log_Error_def)

lemma saved_rows_append: "saved_rows (xs @ ys) = saved_rows xs @ saved_rows ys"
  by (induction xs rule: saved_rows.induct) simp_all

lemma saved_rows_fire_effects:
  "saved_rows (fire_effects C L now rule event) = [history_row L now rule event]"
  by (simp add: fire_effects_def saved_rows_append split: option.split)

lemma fires_of_append: "fires_of i (xs @ ys) = fires_of i xs + fires_of i ys"
  by (simp add: fires_of_def saved_rows_append)

lemma fires_of_fire_effects:
  "fires_of i (fire_effects C L now rule event) = (if AlertRule.ID rule = i then 1 else 0)"
  by (simp add: fires_of_def saved_rows_fire_effects history_row_def)

text \<open>
  C6. When a rule fires, one history row is passed to \<open>SaveHistory\<close>; its event data is
  the placeholder \<open>{}\<close> if marshalling the event's properties fails, and its actions
  field the placeholder \<open>[]\<close> if marshalling the rule's actions fails. If the save
  fails, the failure is logged, the action function (when there is one) is still called
  with the rule and the event, and the cooldown timestamp recorded for the rule stays.
\<close>

theorem fireRule_degrades:
  "\<exists>h new. trace (fireRule C L now rule event e) = trace e @ new
     \<and> saved_rows new = [h]
     \<and> AlertHistory.RuleID h = AlertRule.ID rule
     \<and> (MarshalProperties L (Properties event) = None \<longrightarrow> EventData h = ''{}'')
     \<and> (MarshalActions L (AlertRule.Actions rule) = None \<longrightarrow> AlertHistory.Actions h = ''[]'')
     \<and> (SaveHistory C h \<noteq> None \<longrightarrow>
          LogError ''failed to save alert history'' \<in> set new
          \<and> (\<not> actionFunc_nil C \<longrightarrow> ActionCall rule event \<in> set new)
          \<and> cooldowns (fireRule C L now rule event e) (AlertRule.ID rule) = Some now)"
proof (intro exI conjI impI)
  show "trace (fireRule C L now rule event e) = trace e @ fire_effects C L now rule event"
    by (simp add: fireRule_eq)
  show "saved_rows (fire_effects C L now rule event) = [history_row L now rule event]"
    by (rule saved_rows_fire_effects)
  show "AlertHistory.RuleID (history_row L now rule event) = AlertRule.ID rule"
    by (simp add: history_row_def)
  show "EventData (history_row L now rule event) = ''{}''"
    if "MarshalProperties L (Properties event) = None"
    using that by (simp add: history_row_def)
  show "AlertHistory.Actions (history_row L now rule event) = ''[]''"
    if "MarshalActions L (AlertRule.Actions rule) = None"
    using that by (simp add: history_row_def)
  show "LogError ''failed to save alert history'' \<in> set (fire_effects C L now rule event)"
    if "SaveHistory C (history_row L now rule event) \<noteq> None"
    using that by (auto simp add: fire_effects_def)
  show "ActionCall rule event \<in> set (fire_effects C L now rule event)"
    if "\<not> actionFunc_nil C"
    using that by (simp add: fire_effects_def)
  show "cooldowns (fireRule C L now rule event e) (AlertRule.ID rule) = Some now"
    by (simp add: fireRule_eq)
qed

text \<open>
  Both marshals and the save fail: the row holds the two placeholders, three errors
  are logged, the action function is called last and the cooldown is recorded.
\<close>

theorem fireRule_degrades_witness:
  "MarshalProperties failing_lib (Properties (example_event 5000)) = None
   \<and> MarshalActions failing_lib (AlertRule.Actions (example_rule 300)) = None
   \<and> \<not> actionFunc_nil failing_collaborators
   \<and> (\<exists>h. saved_rows (trace (fireRule failing_collaborators failing_lib 5000 (example_rule 300)
               (example_event 5000) NewEngine)) = [h]
          \<and> SaveHistory failing_collaborators h \<noteq> None
          \<and> EventData h = ''{}'' \<and> AlertHistory.Actions h = ''[]'')
   \<and> last (trace (fireRule failing_collaborators failing_lib 5000 (example_rule 300)
               (example_event 5000) NewEngine))
        = ActionCall (example_rule 300) (example_event 5000)
   \<and> cooldowns (fireRule failing_collaborators failing_lib 5000 (example_rule 300)
               (example_event 5000) NewEngine) 1 = Some 5000"
proof -
  have f1: "MarshalProperties failing_lib m = None" for m
    by (simp add: failing_lib_def)
  have f2: "MarshalActions failing_lib a = None" for a
    by (simp add: failing_lib_def)
  have f3: "SaveHistory failing_collaborators h \<noteq> None" for h
    by (simp add: failing_collaborators_def)
  have f4: "\<not> actionFunc_nil failing_collaborators"
    by (simp add: failing_collaborators_def)
  have id1: "AlertRule.ID (example_rule 300) = 1"
    by (simp add: example_rule_def)
  have tr0: "trace NewEngine = []"
    by (simp add: NewEngine_def)
  from fireRule_degrades [of failing_collaborators failing_lib 5000 "example_rule 300"
      "example_event 5000" NewEngine]
  obtain h new where
    new: "trace (fireRule failing_collaborators failing_lib 5000 (example_rule 300)
               (example_event 5000) NewEngine) = new"
    and h: "saved_rows new = [h]" "EventData h = ''{}''" "AlertHistory.Actions h = ''[]''"
    and cd: "cooldowns (fireRule failing_collaborators failing_lib 5000 (example_rule 300)
               (example_event 5000) NewEngine) 1 = Some 5000"
    using f1 f2 f3 id1 tr0 by auto
  have "last (trace (fireRule failing_collaborators failing_lib 5000 (example_rule 300)
               (example_event 5000) NewEngine))
        = ActionCall (example_rule 300) (example_event 5000)"
    by (simp add: fireRule_eq fire_effects_def f4)
  with f1 f2 f3 f4 new h cd show ?thesis by auto
qed

subsection \<open>The cooldown test\<close>

lemma sint_Second: "sint Second = 1000000000"
  by (simp add: Second_def)

lemma sint_cooldown_duration:
  assumes "0 < sint (c :: go_int)" and "sint c \<le> 9223372036"
  shows "sint (c * Second) = sint c * 1000000000"
proof -
  have "sint (c * Second) = signed_take_bit 63 (sint c * 1000000000)"
    by (simp add: sint_word_ariths sint_Second)
  moreover have "- (2 ^ 63) \<le> sint c * 1000000000" "sint c * 1000000000 < 2 ^ 63"
    using assms by simp_all
  ultimately show ?thesis
    by (simp only: signed_take_bit_int_eq_self)
qed

lemma sint_Time_Sub:
  "sint (Time_Sub t u) =
     (if t - u > 2 ^ 63 - 1 then 2 ^ 63 - 1 else if t - u < - (2 ^ 63) then - (2 ^ 63) else t - u)"
proof -
  have top: "sint (word_of_int (2 ^ 63 - 1) :: Duration) = 2 ^ 63 - 1"
    by (rule sint_word_of_int_Duration) simp_all
  have bot: "sint (word_of_int (- (2 ^ 63)) :: Duration) = - (2 ^ 63)"
    by (rule sint_word_of_int_Duration) simp_all
  have mid: "sint (word_of_int (t - u) :: Duration) = t - u"
    if "\<not> t - u > 2 ^ 63 - 1" and "\<not> t - u < - (2 ^ 63)"
    using that by (intro sint_word_of_int_Duration) simp_all
  show ?thesis
    unfolding Time_Sub_def maxDuration_def minDuration_def
    using top bot mid by (simp only: if_distrib [of sint] split: if_split) simp
qed

lemma isInCooldown_nonpositive:
  "sint c \<le> 0 \<Longrightarrow> \<not> isInCooldown e i c now"
  by (simp add: isInCooldown_def)

lemma isInCooldown_never_fired:
  "cooldowns e i = None \<Longrightarrow> \<not> isInCooldown e i c now"
  by (simp add: isInCooldown_def)

lemma isInCooldown_iff:
  assumes "0 < sint c" and "sint c \<le> 9223372036" and "cooldowns e i = Some t0"
  shows "isInCooldown e i c now \<longleftrightarrow> now - t0 < sint c * 1000000000"
proof -
  have "sint c * 1000000000 \<le> 9223372036000000000" "0 < sint c * 1000000000"
    using assms(1,2) by simp_all
  then show ?thesis
    using assms unfolding isInCooldown_def sint_cooldown_duration [OF assms(1,2)] sint_Time_Sub
    by auto
qed

subsection \<open>One rule in the loop of \<open>HandleEvent\<close>\<close>

lemma ruleMatches_tracker:
  "metricTracker e = metricTracker e' \<Longrightarrow> ruleMatches L e rule event = ruleMatches L e' rule event"
  by (simp add: ruleMatches_def evaluateMetricConditions_def)

lemma isInCooldown_cooldowns:
  "cooldowns e i = cooldowns e' i \<Longrightarrow> isInCooldown e i c now = isInCooldown e' i c now"
  by (simp add: isInCooldown_def)

lemma handleRule_frame:
  "metricTracker (handleRule C L now event e r) = metricTracker e"
  "rules (handleRule C L now event e r) = rules e"
  by (simp_all add: handleRule_def fireRule_eq)

lemma handleRule_other:
  assumes "AlertRule.ID r \<noteq> i"
  shows "cooldowns (handleRule C L now event e r) i = cooldowns e i"
    and "fires_of i (trace (handleRule C L now event e r)) = fires_of i (trace e)"
  using assms by (simp_all add: handleRule_def fireRule_eq fires_of_append fires_of_fire_effects)

lemma handleRule_self:
  "cooldowns (handleRule C L now event e r) (AlertRule.ID r) =
     (if fires L now event e r then Some now else cooldowns e (AlertRule.ID r))"
  "fires_of (AlertRule.ID r) (trace (handleRule C L now event e r)) =
     fires_of (AlertRule.ID r) (trace e) + (if fires L now event e r then 1 else 0)"
  by (simp_all add: handleRule_def fires_def fireRule_eq fires_of_append fires_of_fire_effects)

lemma fires_cong:
  "metricTracker e = metricTracker e' \<Longrightarrow> cooldowns e (AlertRule.ID r) = cooldowns e' (AlertRule.ID r) \<Longrightarrow>
   fires L now event e r = fires L now event e' r"
  unfolding fires_def
  using ruleMatches_tracker [of e e' L r event]
    isInCooldown_cooldowns [of e "AlertRule.ID r" e' "CooldownSec r" now]
  by simp

lemma foldl_handleRule_frame:
  "metricTracker (foldl (handleRule C L now event) e rs) = metricTracker e"
  "rules (foldl (handleRule C L now event) e rs) = rules e"
  by (induction rs arbitrary: e) (simp_all add: handleRule_frame)

lemma foldl_handleRule_other:
  assumes "i \<notin> AlertRule.ID ` set rs"
  shows "cooldowns (foldl (handleRule C L now event) e rs) i = cooldowns e i
       \<and> fires_of i (trace (foldl (handleRule C L now event) e rs)) = fires_of i (trace e)"
  using assms
proof (induction rs arbitrary: e)
  case Nil
  then show ?case by simp
next
  case (Cons r rs)
  then have "AlertRule.ID r \<noteq> i" and "i \<notin> AlertRule.ID ` set rs" by auto
  with Cons.IH [of "handleRule C L now event e r"]
    handleRule_other [where r = r and i = i and C = C and L = L and now = now and event = event
      and e = e]
  show ?case by simp
qed

lemma foldl_handleRule_self:
  assumes "r \<in> set rs" and "distinct (map AlertRule.ID rs)"
  shows "cooldowns (foldl (handleRule C L now event) e rs) (AlertRule.ID r) =
           (if fires L now event e r then Some now else cooldowns e (AlertRule.ID r))
       \<and> fires_of (AlertRule.ID r) (trace (foldl (handleRule C L now event) e rs)) =
           fires_of (AlertRule.ID r) (trace e) + (if fires L now event e r then 1 else 0)"
  using assms
proof (induction rs arbitrary: e)
  case Nil
  then show ?case by simp
next
  case (Cons r' rs)
  from Cons.prems(2) have fresh: "AlertRule.ID r' \<notin> AlertRule.ID ` set rs"
    and dist: "distinct (map AlertRule.ID rs)"
    by simp_all
  show ?case
  proof (cases "r' = r")
    case True
    with fresh have "AlertRule.ID r \<notin> AlertRule.ID ` set rs" by simp
    from foldl_handleRule_other [where i = "AlertRule.ID r" and rs = rs and C = C and L = L
        and now = now and event = event and e = "handleRule C L now event e r", OF this]
      handleRule_self [where C = C and L = L and now = now and event = event and e = e and r = r]
      True
    show ?thesis by simp
  next
    case False
    with Cons.prems(1) have mem: "r \<in> set rs" by simp
    with fresh have ne: "AlertRule.ID r' \<noteq> AlertRule.ID r" by force
    let ?e' = "handleRule C L now event e r'"
    have same: "fires L now event ?e' r = fires L now event e r"
      by (rule fires_cong) (simp_all add: handleRule_frame handleRule_other [OF ne])
    from Cons.IH [OF mem dist, of ?e'] same
      handleRule_other [where C = C and L = L and now = now and event = event and e = e, OF ne]
    show ?thesis by simp
  qed
qed

lemma recordMetric_frame:
  "cooldowns (recordMetric L event e) = cooldowns e"
  "rules (recordMetric L event e) = rules e"
  "trace (recordMetric L event e) = trace e"
  by (simp_all add: recordMetric_def split: option.split)

text \<open>
  What one call of \<open>HandleEvent\<close> does for a rule of the cache whose identifier no other
  cached rule shares: it fires the rule if and only if the rule matches the event (with
  the event's sample recorded) and is not in cooldown.
\<close>

lemma HandleEvent_rule:
  assumes "rule \<in> set (rules e)" and "distinct (map AlertRule.ID (rules e))"
  shows "fires_of (AlertRule.ID rule) (trace (HandleEvent C L now event e)) =
           fires_of (AlertRule.ID rule) (trace e)
           + (if ruleMatches L (recordMetric L event e) rule event
                 \<and> \<not> isInCooldown e (AlertRule.ID rule) (CooldownSec rule) now then 1 else 0)"
    and "cooldowns (HandleEvent C L now event e) (AlertRule.ID rule) =
           (if ruleMatches L (recordMetric L event e) rule event
                 \<and> \<not> isInCooldown e (AlertRule.ID rule) (CooldownSec rule) now
            then Some now else cooldowns e (AlertRule.ID rule))"
    and "rules (HandleEvent C L now event e) = rules e"
proof -
  let ?e1 = "recordMetric L event e"
  have f: "fires L now event ?e1 rule \<longleftrightarrow>
      ruleMatches L ?e1 rule event \<and> \<not> isInCooldown e (AlertRule.ID rule) (CooldownSec rule) now"
    unfolding fires_def
    using isInCooldown_cooldowns [of ?e1 "AlertRule.ID rule" e "CooldownSec rule" now]
    by (simp add: recordMetric_frame)
  have H: "HandleEvent C L now event e = foldl (handleRule C L now event) ?e1 (rules e)"
    by (simp add: HandleEvent_def Let_def recordMetric_frame)
  from foldl_handleRule_self [OF assms, of C L now event ?e1]
  show "fires_of (AlertRule.ID rule) (trace (HandleEvent C L now event e)) =
           fires_of (AlertRule.ID rule) (trace e)
           + (if ruleMatches L (recordMetric L event e) rule event
                 \<and> \<not> isInCooldown e (AlertRule.ID rule) (CooldownSec rule) now then 1 else 0)"
    and "cooldowns (HandleEvent C L now event e) (AlertRule.ID rule) =
           (if ruleMatches L (recordMetric L event e) rule event
                 \<and> \<not> isInCooldown e (AlertRule.ID rule) (CooldownSec rule) now
            then Some now else cooldowns e (AlertRule.ID rule))"
    unfolding H f by (simp_all add: recordMetric_frame)
  show "rules (HandleEvent C L now event e) = rules e"
    unfolding H by (simp add: foldl_handleRule_frame recordMetric_frame)
qed

subsection \<open>Cooldown between fires\<close>

text \<open>
  C2, as amended. Times are readings of the engine's clock, in nanoseconds, and the rule
  is one of the cached rules, with an identifier of its own. For a rule with
  \<open>cooldownSec \<le> 0\<close> every matching event fires. For a rule with
  \<open>0 < cooldownSec \<le> 9223372036\<close> (so that \<open>cooldownSec\<close> seconds fit a 64-bit
  duration) that last fired at \<open>t0\<close>, a matching event handled at \<open>t\<close> fires the rule if
  and only if \<open>t - t0 \<ge> cooldownSec\<close> seconds; a fire at \<open>t\<close> records \<open>t\<close> as the
  rule's cooldown timestamp; and of two matching events handled at \<open>t\<close> and \<open>t'\<close>, the
  rule not having fired before, the first one fires and the second one fires if and only
  if \<open>t' - t \<ge> cooldownSec\<close> seconds: one fire or two.
\<close>

theorem cooldown_gate:
  assumes "rule \<in> set (rules e)" and "distinct (map AlertRule.ID (rules e))"
    and "ruleMatches L (recordMetric L event e) rule event"
  shows
    "(sint (CooldownSec rule) \<le> 0 \<longrightarrow>
        fires_of (AlertRule.ID rule) (trace (HandleEvent C L t event e)) =
          fires_of (AlertRule.ID rule) (trace e) + 1)
     \<and> (0 < sint (CooldownSec rule) \<and> sint (CooldownSec rule) \<le> 9223372036
          \<and> cooldowns e (AlertRule.ID rule) = Some t0 \<longrightarrow>
        fires_of (AlertRule.ID rule) (trace (HandleEvent C L t event e)) =
          fires_of (AlertRule.ID rule) (trace e)
          + (if sint (CooldownSec rule) * 1000000000 \<le> t - t0 then 1 else 0))
     \<and> (fires_of (AlertRule.ID rule) (trace (HandleEvent C L t event e)) =
          fires_of (AlertRule.ID rule) (trace e) + 1 \<longrightarrow>
        cooldowns (HandleEvent C L t event e) (AlertRule.ID rule) = Some t)
     \<and> (0 < sint (CooldownSec rule) \<and> sint (CooldownSec rule) \<le> 9223372036
          \<and> cooldowns e (AlertRule.ID rule) = None
          \<and> ruleMatches L (recordMetric L event' (HandleEvent C L t event e)) rule event' \<longrightarrow>
        fires_of (AlertRule.ID rule)
            (trace (HandleEvent C L t' event' (HandleEvent C L t event e))) =
          fires_of (AlertRule.ID rule) (trace e)
          + (if sint (CooldownSec rule) * 1000000000 \<le> t' - t then 2 else 1))"
proof (intro conjI impI)
  note step = HandleEvent_rule [OF assms(1,2), of C L t event]
  show "fires_of (AlertRule.ID rule) (trace (HandleEvent C L t event e)) =
          fires_of (AlertRule.ID rule) (trace e) + 1"
    if "sint (CooldownSec rule) \<le> 0"
    using step(1) assms(3) isInCooldown_nonpositive [OF that] by simp
  show "fires_of (AlertRule.ID rule) (trace (HandleEvent C L t event e)) =
          fires_of (AlertRule.ID rule) (trace e)
          + (if sint (CooldownSec rule) * 1000000000 \<le> t - t0 then 1 else 0)"
    if "0 < sint (CooldownSec rule) \<and> sint (CooldownSec rule) \<le> 9223372036
          \<and> cooldowns e (AlertRule.ID rule) = Some t0"
  proof -
    from that have "isInCooldown e (AlertRule.ID rule) (CooldownSec rule) t \<longleftrightarrow>
        t - t0 < sint (CooldownSec rule) * 1000000000"
      by (intro isInCooldown_iff) simp_all
    with step(1) assms(3) show ?thesis by auto
  qed
  show "cooldowns (HandleEvent C L t event e) (AlertRule.ID rule) = Some t"
    if "fires_of (AlertRule.ID rule) (trace (HandleEvent C L t event e)) =
          fires_of (AlertRule.ID rule) (trace e) + 1"
    using that step(1,2) by (simp split: if_splits)
  show "fires_of (AlertRule.ID rule)
            (trace (HandleEvent C L t' event' (HandleEvent C L t event e))) =
          fires_of (AlertRule.ID rule) (trace e)
          + (if sint (CooldownSec rule) * 1000000000 \<le> t' - t then 2 else 1)"
    if h: "0 < sint (CooldownSec rule) \<and> sint (CooldownSec rule) \<le> 9223372036
          \<and> cooldowns e (AlertRule.ID rule) = None
          \<and> ruleMatches L (recordMetric L event' (HandleEvent C L t event e)) rule event'"
  proof -
    let ?e1 = "HandleEvent C L t event e"
    from h have free: "\<not> isInCooldown e (AlertRule.ID rule) (CooldownSec rule) t"
      by (simp add: isInCooldown_never_fired)
    from step(1) assms(3) free
    have first: "fires_of (AlertRule.ID rule) (trace ?e1) = fires_of (AlertRule.ID rule) (trace e) + 1"
      by simp
    from step(2) assms(3) free have cd: "cooldowns ?e1 (AlertRule.ID rule) = Some t"
      by simp
    from step(3) assms(1,2) have mem: "rule \<in> set (rules ?e1)"
      and dist: "distinct (map AlertRule.ID (rules ?e1))"
      by simp_all
    from h cd have gate: "isInCooldown ?e1 (AlertRule.ID rule) (CooldownSec rule) t' \<longleftrightarrow>
        t' - t < sint (CooldownSec rule) * 1000000000"
      by (intro isInCooldown_iff) simp_all
    from HandleEvent_rule(1) [OF mem dist, of C L t' event'] h gate first
    show ?thesis by auto
  qed
qed

lemma example_rule_matches:
  "ruleMatches L e (example_rule c) (example_event ts)"
  by (simp add: ruleMatches_def example_rule_def example_event_def TriggerTypeEvent_def
      TriggerTypeMetric_def)

lemma fires_of_Nil: "fires_of i [] = 0"
  by (simp add: fires_of_def)

lemma example_engine_facts:
  "rules (example_engine c) = [example_rule c]"
  "cooldowns (example_engine c) i = None"
  "trace (example_engine c) = []"
  "AlertRule.ID (example_rule c) = 1"
  "CooldownSec (example_rule c) = c"
  by (simp_all add: example_engine_def NewEngine_def example_rule_def)

lemma HandleEvent_example:
  "fires_of 1 (trace (HandleEvent C L now (example_event ts) e)) =
     fires_of 1 (trace e) + (if isInCooldown e 1 c now then 0 else 1)"
  "cooldowns (HandleEvent C L now (example_event ts) e) 1 =
     (if isInCooldown e 1 c now then cooldowns e 1 else Some now)"
  if "rules e = [example_rule c]"
proof -
  from that have mem: "example_rule c \<in> set (rules e)"
    and dist: "distinct (map AlertRule.ID (rules e))"
    by simp_all
  from HandleEvent_rule(1) [OF mem dist, of C L now "example_event ts"]
  show "fires_of 1 (trace (HandleEvent C L now (example_event ts) e)) =
     fires_of 1 (trace e) + (if isInCooldown e 1 c now then 0 else 1)"
    by (simp add: example_rule_matches example_engine_facts)
  from HandleEvent_rule(2) [OF mem dist, of C L now "example_event ts"]
  show "cooldowns (HandleEvent C L now (example_event ts) e) 1 =
     (if isInCooldown e 1 c now then cooldowns e 1 else Some now)"
    by (simp add: example_rule_matches example_engine_facts)
qed

text \<open>
  A rule with a cooldown of 300 seconds and two matching events: handled 100 seconds
  apart they give one fire, handled 300 seconds apart they give two; after the first
  fire the cooldown timestamp is the time of that fire, and an event 100 seconds later
  adds no fire. A rule with a cooldown of zero fires on an event handled right after a
  fire.
\<close>

theorem cooldown_gate_witness:
  "example_rule 300 \<in> set (rules (example_engine 300))
   \<and> distinct (map AlertRule.ID (rules (example_engine 300)))
   \<and> ruleMatches example_lib (recordMetric example_lib (example_event 5000000000000)
        (example_engine 300)) (example_rule 300) (example_event 5000000000000)
   \<and> 0 < sint (CooldownSec (example_rule 300))
   \<and> sint (CooldownSec (example_rule 300)) \<le> 9223372036
   \<and> cooldowns (example_engine 300) (AlertRule.ID (example_rule 300)) = None
   \<and> fires_of 1 (trace (HandleEvent example_collaborators example_lib 5100000000000
        (example_event 5100000000000)
        (HandleEvent example_collaborators example_lib 5000000000000
           (example_event 5000000000000) (example_engine 300)))) = 1
   \<and> fires_of 1 (trace (HandleEvent example_collaborators example_lib 5300000000000
        (example_event 5300000000000)
        (HandleEvent example_collaborators example_lib 5000000000000
           (example_event 5000000000000) (example_engine 300)))) = 2
   \<and> cooldowns (HandleEvent example_collaborators example_lib 5000000000000
           (example_event 5000000000000) (example_engine 300)) 1 = Some 5000000000000
   \<and> sint (CooldownSec (example_rule 0)) \<le> 0
   \<and> fires_of 1 (trace (HandleEvent example_collaborators example_lib 5000000000000
        (example_event 5000000000000)
        (HandleEvent example_collaborators example_lib 5000000000000
           (example_event 5000000000000) (example_engine 0)))) = 2"
proof -
  let ?e300 = "HandleEvent example_collaborators example_lib 5000000000000
           (example_event 5000000000000) (example_engine 300)"
  let ?e0 = "HandleEvent example_collaborators example_lib 5000000000000
           (example_event 5000000000000) (example_engine 0)"
  have mem: "example_rule c \<in> set (rules (example_engine c))"
    and dist: "distinct (map AlertRule.ID (rules (example_engine c)))" for c
    by (simp_all add: example_engine_facts)
  have m: "ruleMatches example_lib e (example_rule c) (example_event ts)" for e ts c
    by (rule example_rule_matches)
  have c: "0 < sint (CooldownSec (example_rule 300))"
    "sint (CooldownSec (example_rule 300)) \<le> 9223372036"
    "sint (CooldownSec (example_rule 300)) * 1000000000 = 300000000000"
    "sint (CooldownSec (example_rule 0)) \<le> 0"
    by (simp_all add: example_engine_facts)
  note two = cooldown_gate [where C = example_collaborators and t = 5000000000000
      and e = "example_engine 300" and rule = "example_rule 300",
      OF mem dist m [where ts = 5000000000000]]
  from two [where event' = "example_event 5100000000000" and t' = 5100000000000]
  have near: "fires_of 1 (trace (HandleEvent example_collaborators example_lib 5100000000000
        (example_event 5100000000000) ?e300)) = 1"
    using m c by (simp add: example_engine_facts fires_of_Nil)
  from two [where event' = "example_event 5300000000000" and t' = 5300000000000]
  have far: "fires_of 1 (trace (HandleEvent example_collaborators example_lib 5300000000000
        (example_event 5300000000000) ?e300)) = 2"
    using m c by (simp add: example_engine_facts fires_of_Nil)
  from cooldown_gate [where C = example_collaborators and t = 5000000000000
      and e = "example_engine 0" and rule = "example_rule 0",
      OF mem dist m [where ts = 5000000000000]]
  have first0: "fires_of 1 (trace ?e0) = 1"
    using c by (simp add: example_engine_facts fires_of_Nil)
  have rules0: "rules ?e0 = rules (example_engine 0)"
    by (rule HandleEvent_rule(3) [OF mem dist])
  have mem0: "example_rule 0 \<in> set (rules ?e0)"
    and dist0: "distinct (map AlertRule.ID (rules ?e0))"
    unfolding rules0 by (rule mem, rule dist)
  from cooldown_gate [where C = example_collaborators and t = 5000000000000
      and e = ?e0 and rule = "example_rule 0", OF mem0 dist0 m [where ts = 5000000000000]]
    first0
  have second0: "fires_of 1 (trace (HandleEvent example_collaborators example_lib 5000000000000
        (example_event 5000000000000) ?e0)) = 2"
    using c by (simp add: example_engine_facts)
  have "fires_of 1 (trace ?e300) = 1"
    using HandleEvent_example(1) [where C = example_collaborators and L = example_lib
        and now = 5000000000000 and ts = 5000000000000 and e = "example_engine 300" and c = 300]
    by (simp add: example_engine_facts fires_of_Nil isInCooldown_never_fired)
  with two have stamp300: "cooldowns ?e300 1 = Some 5000000000000"
    by (simp add: example_engine_facts fires_of_Nil)
  from mem dist m c near far second0 stamp300 show ?thesis
    by (simp add: example_engine_facts)
qed

lemma overflowing_cooldown: "sint ((9223372037 :: go_int) * Second) = - 9223372036709551616"
  by (simp add: Second_def)

lemma overflowing_cooldown_open:
  "cooldowns e 1 = Some t0 \<Longrightarrow> t = t0 + 1000000000 \<Longrightarrow> \<not> isInCooldown e 1 9223372037 t"
  by (simp add: isInCooldown_def overflowing_cooldown sint_Time_Sub)

text \<open>
  C2 as stated fails for a cooldown whose count of nanoseconds overflows 64 bits: with
  \<open>cooldownSec = 9223372037\<close> the product with \<open>time.Second\<close> wraps to a negative
  duration, no elapsed time is smaller than it, and two matching events one second apart
  both fire.
\<close>

theorem cooldown_overflow_counterexample:
  "0 < sint (CooldownSec (example_rule 9223372037))
   \<and> (5001000000000 :: int) - 5000000000000 < sint (CooldownSec (example_rule 9223372037)) * 1000000000
   \<and> fires_of 1 (trace (HandleEvent example_collaborators example_lib 5001000000000
        (example_event 5001000000000)
        (HandleEvent example_collaborators example_lib 5000000000000
           (example_event 5000000000000) (example_engine 9223372037)))) = 2"
proof -
  let ?e0 = "example_engine 9223372037"
  let ?e1 = "HandleEvent example_collaborators example_lib 5000000000000
           (example_event 5000000000000) ?e0"
  have r0: "rules ?e0 = [example_rule 9223372037]"
    by (simp add: example_engine_facts)
  then have r1: "rules ?e1 = [example_rule 9223372037]"
    by (simp add: HandleEvent_rule(3))
  have free: "\<not> isInCooldown ?e0 1 9223372037 5000000000000"
    by (simp add: isInCooldown_never_fired example_engine_facts)
  from HandleEvent_example [OF r0, where C = example_collaborators and L = example_lib
      and now = 5000000000000 and ts = 5000000000000] free
  have one: "fires_of 1 (trace ?e1) = 1" and cd: "cooldowns ?e1 1 = Some 5000000000000"
    by (simp_all add: example_engine_facts fires_of_Nil)
  from overflowing_cooldown_open [OF cd, where t = 5001000000000]
  have "\<not> isInCooldown ?e1 1 9223372037 5001000000000" by simp
  with HandleEvent_example(1) [OF r1, where C = example_collaborators and L = example_lib
      and now = 5001000000000 and ts = 5001000000000] one
  show ?thesis
    by (simp add: example_engine_facts)
qed

subsection \<open>Test fires\<close>

lemma TestFireRule_eq:
  "TestFireRule C L now rule e =
     fireRule C L now rule
       \<lparr>AlertEvent.ObjectType = AlertRule.ObjectType rule,
        AlertEvent.EventName = AlertRule.EventName rule,
        AlertEvent.MetricName = AlertRule.MetricName rule,
        Properties = [''test'' \<mapsto> VBool True], Timestamp = now\<rparr> e"
  by (simp add: TestFireRule_def)

lemma TestFireRule_frame:
  "rules (TestFireRule C L now rule e) = rules e"
  "cooldowns (TestFireRule C L now rule e) (AlertRule.ID rule) = Some now"
  by (simp_all add: TestFireRule_eq fireRule_eq)

text \<open>
  C9, as amended. \<open>TestFireRule\<close> runs the whole fire path: it records the current time
  as the rule's cooldown timestamp, passes to \<open>SaveHistory\<close> a row built from a
  synthetic event whose properties are \<open>{"test": true}\<close>, and calls the action function
  (when there is one) with that event. Hence, for a cached rule with an identifier of its
  own and \<open>0 < cooldownSec \<le> 9223372036\<close>, an event handled less than \<open>cooldownSec\<close>
  seconds after the test fire does not fire the rule.
\<close>

theorem TestFireRule_full_fire:
  "cooldowns (TestFireRule C L now rule e) (AlertRule.ID rule) = Some now
   \<and> (\<exists>h new event.
         trace (TestFireRule C L now rule e) = trace e @ new
         \<and> saved_rows new = [h]
         \<and> AlertHistory.RuleID h = AlertRule.ID rule \<and> FiredAt h = now
         \<and> Properties event = [''test'' \<mapsto> VBool True]
         \<and> EventData h =
             (case MarshalProperties L (Properties event) of None \<Rightarrow> ''{}'' | Some js \<Rightarrow> js)
         \<and> (\<not> actionFunc_nil C \<longrightarrow> ActionCall rule event \<in> set new))
   \<and> (rule \<in> set (rules e) \<and> distinct (map AlertRule.ID (rules e))
        \<and> 0 < sint (CooldownSec rule) \<and> sint (CooldownSec rule) \<le> 9223372036
        \<and> t - now < sint (CooldownSec rule) * 1000000000 \<longrightarrow>
      fires_of (AlertRule.ID rule)
          (trace (HandleEvent C L t event' (TestFireRule C L now rule e))) =
        fires_of (AlertRule.ID rule) (trace (TestFireRule C L now rule e)))"
proof (intro conjI impI)
  let ?ev = "\<lparr>AlertEvent.ObjectType = AlertRule.ObjectType rule,
        AlertEvent.EventName = AlertRule.EventName rule,
        AlertEvent.MetricName = AlertRule.MetricName rule,
        Properties = [''test'' \<mapsto> VBool True], Timestamp = now\<rparr>"
  let ?e1 = "TestFireRule C L now rule e"
  show "cooldowns ?e1 (AlertRule.ID rule) = Some now"
    by (rule TestFireRule_frame)
  show "\<exists>h new event.
         trace ?e1 = trace e @ new
         \<and> saved_rows new = [h]
         \<and> AlertHistory.RuleID h = AlertRule.ID rule \<and> FiredAt h = now
         \<and> Properties event = [''test'' \<mapsto> VBool True]
         \<and> EventData h =
             (case MarshalProperties L (Properties event) of None \<Rightarrow> ''{}'' | Some js \<Rightarrow> js)
         \<and> (\<not> actionFunc_nil C \<longrightarrow> ActionCall rule event \<in> set new)"
  proof (intro exI conjI impI)
    show "trace ?e1 = trace e @ fire_effects C L now rule ?ev"
      by (simp add: TestFireRule_eq fireRule_eq)
    show "saved_rows (fire_effects C L now rule ?ev) = [history_row L now rule ?ev]"
      by (rule saved_rows_fire_effects)
    show "AlertHistory.RuleID (history_row L now rule ?ev) = AlertRule.ID rule"
      "FiredAt (history_row L now rule ?ev) = now"
      "EventData (history_row L now rule ?ev) =
         (case MarshalProperties L (Properties ?ev) of None \<Rightarrow> ''{}'' | Some js \<Rightarrow> js)"
      by (simp_all add: history_row_def)
    show "Properties ?ev = [''test'' \<mapsto> VBool True]"
      by simp
    show "ActionCall rule ?ev \<in> set (fire_effects C L now rule ?ev)" if "\<not> actionFunc_nil C"
      using that by (simp add: fire_effects_def)
  qed
  show "fires_of (AlertRule.ID rule) (trace (HandleEvent C L t event' ?e1)) =
        fires_of (AlertRule.ID rule) (trace ?e1)"
    if h: "rule \<in> set (rules e) \<and> distinct (map AlertRule.ID (rules e))
        \<and> 0 < sint (CooldownSec rule) \<and> sint (CooldownSec rule) \<le> 9223372036
        \<and> t - now < sint (CooldownSec rule) * 1000000000"
  proof -
    from h have mem: "rule \<in> set (rules ?e1)" and dist: "distinct (map AlertRule.ID (rules ?e1))"
      by (simp_all add: TestFireRule_frame)
    from h have "isInCooldown ?e1 (AlertRule.ID rule) (CooldownSec rule) t \<longleftrightarrow>
        t - now < sint (CooldownSec rule) * 1000000000"
      by (intro isInCooldown_iff) (simp_all add: TestFireRule_frame)
    with h have "isInCooldown ?e1 (AlertRule.ID rule) (CooldownSec rule) t" by simp
    with HandleEvent_rule(1) [OF mem dist, where C = C and L = L and now = t and event = event']
    show ?thesis by simp
  qed
qed

text \<open>
  A test fire of a rule with a cooldown of 300 seconds, then a matching event 100
  seconds later: the test fire is the only fire.
\<close>

theorem TestFireRule_full_fire_witness:
  "example_rule 300 \<in> set (rules (example_engine 300))
   \<and> distinct (map AlertRule.ID (rules (example_engine 300)))
   \<and> 0 < sint (CooldownSec (example_rule 300))
   \<and> sint (CooldownSec (example_rule 300)) \<le> 9223372036
   \<and> (5100000000000 :: int) - 5000000000000 < sint (CooldownSec (example_rule 300)) * 1000000000
   \<and> ruleMatches example_lib
        (recordMetric example_lib (example_event 5100000000000)
           (TestFireRule example_collaborators example_lib 5000000000000 (example_rule 300)
              (example_engine 300)))
        (example_rule 300) (example_event 5100000000000)
   \<and> fires_of 1 (trace (TestFireRule example_collaborators example_lib 5000000000000
        (example_rule 300) (example_engine 300))) = 1
   \<and> fires_of 1 (trace (HandleEvent example_collaborators example_lib 5100000000000
        (example_event 5100000000000)
        (TestFireRule example_collaborators example_lib 5000000000000 (example_rule 300)
           (example_engine 300)))) = 1"
proof -
  let ?e1 = "TestFireRule example_collaborators example_lib 5000000000000 (example_rule 300)
           (example_engine 300)"
  have hyps: "example_rule 300 \<in> set (rules (example_engine 300))"
    "distinct (map AlertRule.ID (rules (example_engine 300)))"
    "0 < sint (CooldownSec (example_rule 300))"
    "sint (CooldownSec (example_rule 300)) \<le> 9223372036"
    "(5100000000000 :: int) - 5000000000000 < sint (CooldownSec (example_rule 300)) * 1000000000"
    by (simp_all add: example_engine_facts)
  have one: "fires_of 1 (trace ?e1) = 1"
    by (simp add: TestFireRule_eq fireRule_eq fires_of_append fires_of_fire_effects
        example_engine_facts fires_of_Nil)
  from TestFireRule_full_fire [where C = example_collaborators and L = example_lib
      and now = 5000000000000 and rule = "example_rule 300" and e = "example_engine 300"
      and t = 5100000000000 and event' = "example_event 5100000000000"] hyps one
  have "fires_of 1 (trace (HandleEvent example_collaborators example_lib 5100000000000
        (example_event 5100000000000) ?e1)) = 1"
    by (simp add: example_engine_facts)
  with hyps one example_rule_matches show ?thesis by simp
qed

text \<open>
  C9 as stated fails for a cooldown whose count of nanoseconds overflows 64 bits: with
  \<open>cooldownSec = 9223372037\<close> a matching event handled one second after the test fire
  fires the rule.
\<close>

theorem TestFireRule_overflow_counterexample:
  "0 < sint (CooldownSec (example_rule 9223372037))
   \<and> (5001000000000 :: int) - 5000000000000 < sint (CooldownSec (example_rule 9223372037)) * 1000000000
   \<and> fires_of 1 (trace (TestFireRule example_collaborators example_lib 5000000000000
        (example_rule 9223372037) (example_engine 9223372037))) = 1
   \<and> fires_of 1 (trace (HandleEvent example_collaborators example_lib 5001000000000
        (example_event 5001000000000)
        (TestFireRule example_collaborators example_lib 5000000000000
           (example_rule 9223372037) (example_engine 9223372037)))) = 2"
proof -
  let ?e1 = "TestFireRule example_collaborators example_lib 5000000000000
           (example_rule 9223372037) (example_engine 9223372037)"
  have r1: "rules ?e1 = [example_rule 9223372037]"
    by (simp add: TestFireRule_frame example_engine_facts)
  have one: "fires_of 1 (trace ?e1) = 1"
    by (simp add: TestFireRule_eq fireRule_eq fires_of_append fires_of_fire_effects
        example_engine_facts fires_of_Nil)
  have cd: "cooldowns ?e1 1 = Some 5000000000000"
    using TestFireRule_frame(2) [of example_collaborators example_lib 5000000000000
        "example_rule 9223372037" "example_engine 9223372037"]
    by (simp add: example_engine_facts)
  from overflowing_cooldown_open [OF cd, where t = 5001000000000]
  have "\<not> isInCooldown ?e1 1 9223372037 5001000000000" by simp
  with HandleEvent_example(1) [OF r1, where C = example_collaborators and L = example_lib
      and now = 5001000000000 and ts = 5001000000000] one
  show ?thesis
    by (simp add: example_engine_facts)
qed

section \<open>Properties of the event bus\<close>

lemma Stop_closed: "stopCh_closed (Stop b)"
  by (simp add: Stop_def)

lemma Publish_stopped: "stopCh_closed b \<Longrightarrow> Publish b event now = (b, event)"
  by (simp add: Publish_def)

text \<open>
  C10. Once \<open>Stop\<close> has been called, \<open>Publish\<close> returns the bus and the event as they
  were: an event whose timestamp is unset keeps it unset. The stop signal is never reset,
  by \<open>Stop\<close>, \<open>Subscribe\<close> or \<open>Publish\<close>.
\<close>

theorem Publish_after_Stop:
  "stopCh_closed (Stop b)
   \<and> (stopCh_closed b \<longrightarrow>
        Publish b event now = (b, event)
        \<and> (Time_IsZero (Timestamp event) \<longrightarrow> Time_IsZero (Timestamp (snd (Publish b event now))))
        \<and> stopCh_closed (Stop b) \<and> stopCh_closed (Subscribe b handler)
        \<and> stopCh_closed (fst (Publish b event now)))"
  by (simp add: Publish_stopped Stop_def Subscribe_def)

text \<open>A stopped bus and an event without a timestamp.\<close>

theorem Publish_after_Stop_witness:
  "stopCh_closed (Stop NewAlertEventBus)
   \<and> Time_IsZero (Timestamp (example_event 0))
   \<and> Publish (Stop NewAlertEventBus) (example_event 0) 5000000000000
        = (Stop NewAlertEventBus, example_event 0)
   \<and> Time_IsZero (Timestamp (snd (Publish (Stop NewAlertEventBus) (example_event 0) 5000000000000)))"
proof -
  have z: "Time_IsZero (Timestamp (example_event 0))"
    by (simp add: Time_IsZero_def example_event_def)
  from Publish_after_Stop [where b = "Stop NewAlertEventBus" and event = "example_event 0"
      and now = 5000000000000] z
  show ?thesis by (simp add: Stop_closed)
qed

subsection \<open>Runs of the bus\<close>


lemma Publish_two_steps:
  assumes "sending s g = None" and "\<not> stopCh_closed (bus s)"
  shows "\<exists>s'. run [PublishEnter g event now, PublishSend g] s = Some s'
            \<and> bus s' = fst (Publish (bus s) event now) \<and> sending s' g = None"
  using assms by (simp add: Publish_def Let_def)
























end
